theory Spec2Isabelle
  imports Main "HOL-Library.Sublist" "HOL-Library.AList"
begin


section \<open>Values, errors and the environment\<close>

text \<open>
  The database and the extracted records are whatever \<^verbatim>\<open>json.load\<close> produced, so they
  are modelled as JSON values. A Python \<^verbatim>\<open>dict\<close> keeps insertion order: it is an
  association list, read with \<open>map_of\<close> and written with \<open>AList.update\<close> (an existing
  key keeps its position, a new key goes to the end). Python floats are not interpreted:
  their payload is the type parameter \<open>'f\<close>. A \<open>char\<close> stands for one code point
  below 256.
\<close>

datatype 'f json =
    JNull
  | JBool bool
  | JInt int
  | JFloat 'f
  | JStr string
  | JList "'f json list"
  | JObj "(string \<times> 'f json) list"

datatype py_error = AttributeError | KeyError | TypeError

text \<open>
  What the code takes from outside: the clock (\<open>now k\<close> is the text of the \<open>k\<close>-th call of
  \<^verbatim>\<open>datetime.now().isoformat()\<close>), the sum of a float and a length, and the text an
  f-string gives for a value that is not a string.
\<close>

record 'f env =
  now :: "nat \<Rightarrow> string"
  float_add :: "'f \<Rightarrow> nat \<Rightarrow> 'f"
  py_str :: "'f json \<Rightarrow> string"

datatype notice =
    SidebarSuccess
  | SidebarError
  | SidebarInfo
  | StError string
  | StCode string

definition bindE :: "py_error + 'a \<Rightarrow> ('a \<Rightarrow> py_error + 'b) \<Rightarrow> py_error + 'b" where
  "bindE m f = (case m of Inl e \<Rightarrow> Inl e | Inr x \<Rightarrow> f x)"

fun mapE :: "('a \<Rightarrow> py_error + 'b) \<Rightarrow> 'a list \<Rightarrow> py_error + 'b list" where
  "mapE f [] = Inr []"
| "mapE f (x # xs) =
     (case f x of
        Inl e \<Rightarrow> Inl e
      | Inr y \<Rightarrow> (case mapE f xs of Inl e \<Rightarrow> Inl e | Inr ys \<Rightarrow> Inr (y # ys)))"

section \<open>String operations of the Python library\<close>

text \<open>\<^verbatim>\<open>s.replace(old, new)\<close>: every non-overlapping occurrence, from the left.\<close>

function replace_py :: "string \<Rightarrow> string \<Rightarrow> string \<Rightarrow> string" where
  "replace_py old new [] = (if old = [] then new else [])"
| "replace_py old new (c # cs) =
     (if old = [] then new @ c # replace_py old new cs
      else if prefix old (c # cs) then new @ replace_py old new (drop (length old) (c # cs))
      else c # replace_py old new cs)"
  by pat_completeness auto
termination
  by (relation "measure (\<lambda>(old, new, s). length s)") auto

text \<open>\<^verbatim>\<open>s.split(sep)\<close> for a separator of one character: never the empty list.\<close>

fun split_py :: "char \<Rightarrow> string \<Rightarrow> string list" where
  "split_py sep [] = [[]]"
| "split_py sep (c # cs) =
     (if c = sep then [] # split_py sep cs
      else (case split_py sep cs of
              [] \<Rightarrow> [[c]]
            | w # ws \<Rightarrow> (c # w) # ws))"

text \<open>\<^verbatim>\<open>str(n)\<close> for a length.\<close>

fun string_of_nat :: "nat \<Rightarrow> string" where
  "string_of_nat n =
     (if n < 10 then [char_of (48 + n)]
      else string_of_nat (n div 10) @ [char_of (48 + n mod 10)])"

declare string_of_nat.simps [simp del]

text \<open>\<^verbatim>\<open>str.isspace\<close> on the code points below 256, and \<^verbatim>\<open>s.strip()\<close>.\<close>

definition is_space :: "char \<Rightarrow> bool" where
  "is_space c =
     (let n = (of_char c :: nat)
      in (9 \<le> n \<and> n \<le> 13) \<or> (28 \<le> n \<and> n \<le> 32) \<or> n = 133 \<or> n = 160)"

definition strip :: "string \<Rightarrow> string" where
  "strip s = rev (dropWhile is_space (rev (dropWhile is_space s)))"

text \<open>The slice \<^verbatim>\<open>s[a:-b]\<close> for \<open>b > 0\<close>.\<close>

definition slice_between :: "nat \<Rightarrow> nat \<Rightarrow> string \<Rightarrow> string" where
  "slice_between a b s = drop a (take (length s - b) s)"

section \<open>Operations on JSON values\<close>

text \<open>\<^verbatim>\<open>x.get(k, d)\<close>: only a dict has it.\<close>

fun obj_get :: "'f json \<Rightarrow> string \<Rightarrow> 'f json \<Rightarrow> py_error + 'f json" where
  "obj_get (JObj kvs) k d = Inr (case map_of kvs k of None \<Rightarrow> d | Some v \<Rightarrow> v)"
| "obj_get _ k d = Inl AttributeError"

text \<open>The elements a \<^verbatim>\<open>for\<close> loop visits.\<close>

fun iter_items :: "'f json \<Rightarrow> py_error + 'f json list" where
  "iter_items (JList xs) = Inr xs"
| "iter_items (JObj kvs) = Inr (map (\<lambda>kv. JStr (fst kv)) kvs)"
| "iter_items (JStr s) = Inr (map (\<lambda>c. JStr [c]) s)"
| "iter_items _ = Inl TypeError"

fun py_len :: "'f json \<Rightarrow> py_error + nat" where
  "py_len (JList xs) = Inr (length xs)"
| "py_len (JObj kvs) = Inr (length kvs)"
| "py_len (JStr s) = Inr (length s)"
| "py_len _ = Inl TypeError"

text \<open>\<^verbatim>\<open>v + len(programs)\<close>.\<close>

fun py_add_len :: "'f env \<Rightarrow> 'f json \<Rightarrow> nat \<Rightarrow> py_error + 'f json" where
  "py_add_len E (JInt a) n = Inr (JInt (a + int n))"
| "py_add_len E (JBool b) n = Inr (JInt ((if b then 1 else 0) + int n))"
| "py_add_len E (JFloat x) n = Inr (JFloat (float_add E x n))"
| "py_add_len E _ n = Inl TypeError"

text \<open>A value inside an f-string.\<close>

fun format_value :: "'f env \<Rightarrow> 'f json \<Rightarrow> string" where
  "format_value E (JStr s) = s"
| "format_value E v = py_str E v"

section \<open>database\_handler.py\<close>

text \<open>
  What \<^verbatim>\<open>os.path.exists\<close> and then \<^verbatim>\<open>open\<close> with \<^verbatim>\<open>json.load\<close> find at
  \<^verbatim>\<open>DATABASE_FILE\<close>: no file, an exception, or a value.
\<close>

datatype 'f storage = NoFile | LoadRaises | Loaded "'f json"

definition empty_database :: "'f json" where
  "empty_database =
     JObj [(''programs'', JList []),
           (''universities'', JList []),
           (''last_updated'', JNull),
           (''total_programs'', JInt 0)]"

fun load_database :: "'f storage \<Rightarrow> notice \<times> 'f json" where
  "load_database (Loaded data) = (SidebarSuccess, data)"
| "load_database LoadRaises = (SidebarError, empty_database)"
| "load_database NoFile = (SidebarInfo, empty_database)"

definition university_name_of :: "string \<Rightarrow> string" where
  "university_name_of university_url =
     hd (split_py CHR ''/''
           (replace_py ''http://'' [] (replace_py ''https://'' [] university_url)))"

text \<open>The \<^verbatim>\<open>else\<close> branch: every entry whose url is the source url is updated.\<close>

fun update_existing ::
  "'f env \<Rightarrow> string \<Rightarrow> nat \<Rightarrow> nat \<Rightarrow> 'f json list \<Rightarrow> py_error + (nat \<times> 'f json list)" where
  "update_existing E url n t [] = Inr (t, [])"
| "update_existing E url n t (uni # unis) =
     (case uni of
        JObj kvs \<Rightarrow>
          if map_of kvs ''url'' = Some (JStr url) then
            (let kvs1 = AList.update ''scraped_at'' (JStr (now E t)) kvs
             in case py_add_len E
                       (case map_of kvs1 ''programs_count'' of None \<Rightarrow> JInt 0 | Some v \<Rightarrow> v) n of
                  Inl e \<Rightarrow> Inl e
                | Inr c \<Rightarrow>
                    (case update_existing E url n (Suc t) unis of
                       Inl e \<Rightarrow> Inl e
                     | Inr (t', unis') \<Rightarrow>
                         Inr (t', JObj (AList.update ''programs_count'' c kvs1) # unis')))
          else
            (case update_existing E url n t unis of
               Inl e \<Rightarrow> Inl e
             | Inr (t', unis') \<Rightarrow> Inr (t', uni # unis'))
      | _ \<Rightarrow> Inl AttributeError)"

definition program_with_meta ::
  "'f env \<Rightarrow> string \<Rightarrow> string \<Rightarrow> nat \<Rightarrow> nat \<Rightarrow> (string \<times> 'f json) list \<Rightarrow> (string \<times> 'f json) list" where
  "program_with_meta E name url t n program =
     AList.update ''id''
       (JStr (name @ ''_'' @
              format_value E (case map_of program ''name'' of None \<Rightarrow> JStr ''unknown'' | Some v \<Rightarrow> v)
              @ ''_'' @ string_of_nat n))
       (AList.update ''added_at'' (JStr (now E t))
          (AList.update ''source_url'' (JStr url)
             (AList.update ''university'' (JStr name) program)))"

text \<open>The loop over the new records; \<open>db\<close> is the database dict, \<open>t\<close> the clock's count.\<close>

fun add_records ::
  "'f env \<Rightarrow> string \<Rightarrow> string \<Rightarrow> 'f json list \<Rightarrow> nat \<Rightarrow> (string \<times> 'f json) list
     \<Rightarrow> py_error + (nat \<times> (string \<times> 'f json) list)" where
  "add_records E name url [] t db = Inr (t, db)"
| "add_records E name url (program # programs) t db =
     (case program of
        JObj kvs \<Rightarrow>
          (case map_of db ''programs'' of
             None \<Rightarrow> Inl KeyError
           | Some pv \<Rightarrow>
               (case py_len pv of
                  Inl e \<Rightarrow> Inl e
                | Inr n \<Rightarrow>
                    (case pv of
                       JList existing \<Rightarrow>
                         add_records E name url programs (Suc t)
                           (AList.update ''programs''
                              (JList (existing @ [JObj (program_with_meta E name url t n kvs)])) db)
                     | _ \<Rightarrow> Inl AttributeError)))
      | JList _ \<Rightarrow> Inl TypeError
      | _ \<Rightarrow> Inl AttributeError)"

definition university_info :: "'f env \<Rightarrow> string \<Rightarrow> string \<Rightarrow> nat \<Rightarrow> nat \<Rightarrow> 'f json" where
  "university_info E name url t n =
     JObj [(''name'', JStr name),
           (''url'', JStr url),
           (''scraped_at'', JStr (now E t)),
           (''programs_count'', JInt (int n))]"

text \<open>Lines 51 to 68: the university entries; gives the clock's count and the dict.\<close>

definition update_universities ::
  "'f env \<Rightarrow> string \<Rightarrow> string \<Rightarrow> nat \<Rightarrow> (string \<times> 'f json) list
     \<Rightarrow> py_error + (nat \<times> (string \<times> 'f json) list)" where
  "update_universities E name url n db =
     bindE (iter_items (case map_of db ''universities'' of None \<Rightarrow> JList [] | Some v \<Rightarrow> v))
       (\<lambda>unis. bindE (mapE (\<lambda>uni. obj_get uni ''url'' (JStr [])) unis)
       (\<lambda>existing_urls.
          if JStr url \<notin> set existing_urls then
            (case map_of db ''universities'' of
               None \<Rightarrow> Inl KeyError
             | Some (JList us) \<Rightarrow>
                 Inr (Suc 0,
                      AList.update ''universities''
                        (JList (us @ [university_info E name url 0 n])) db)
             | Some _ \<Rightarrow> Inl AttributeError)
          else
            (case map_of db ''universities'' of
               None \<Rightarrow> Inl KeyError
             | Some uv \<Rightarrow>
                 bindE (iter_items uv)
                   (\<lambda>us. bindE (update_existing E url n 0 us)
                   (\<lambda>(t, us'). Inr (t, AList.update ''universities'' (JList us') db))))))"

text \<open>Lines 80 to 84.\<close>

definition update_metadata ::
  "'f env \<Rightarrow> nat \<Rightarrow> (string \<times> 'f json) list \<Rightarrow> py_error + 'f json" where
  "update_metadata E t db =
     (let db1 = AList.update ''last_updated'' (JStr (now E t)) db
      in case map_of db1 ''programs'' of
           None \<Rightarrow> Inl KeyError
         | Some pv \<Rightarrow>
             bindE (py_len pv)
               (\<lambda>n. Inr (JObj (AList.update ''total_programs'' (JInt (int n)) db1))))"

text \<open>The body of \<^verbatim>\<open>add_programs_to_database\<close> after the database is loaded.\<close>

definition merge :: "'f env \<Rightarrow> 'f json \<Rightarrow> 'f json list \<Rightarrow> string \<Rightarrow> py_error + 'f json" where
  "merge E database programs university_url =
     (case database of
        JObj db \<Rightarrow>
          (let university_name = university_name_of university_url
           in bindE (update_universities E university_name university_url (length programs) db)
                (\<lambda>(t, db1). bindE (add_records E university_name university_url programs t db1)
                (\<lambda>(t', db2). update_metadata E t' db2)))
      | _ \<Rightarrow> Inl AttributeError)"

definition add_programs_to_database ::
  "'f env \<Rightarrow> 'f storage \<Rightarrow> 'f json list \<Rightarrow> string \<Rightarrow> py_error + 'f json" where
  "add_programs_to_database E st programs university_url =
     merge E (snd (load_database st)) programs university_url"

section \<open>Vocabulary of the properties\<close>

text \<open>The field of a dict; no field of anything else.\<close>

fun field :: "'f json \<Rightarrow> string \<Rightarrow> 'f json option" where
  "field (JObj kvs) k = map_of kvs k"
| "field _ k = None"

fun is_obj :: "'f json \<Rightarrow> bool" where
  "is_obj (JObj kvs) = True"
| "is_obj _ = False"

fun is_number :: "'f json \<Rightarrow> bool" where
  "is_number (JInt a) = True"
| "is_number (JBool b) = True"
| "is_number (JFloat x) = True"
| "is_number _ = False"

text \<open>A university entry the merge can update: a dict whose count, if any, is a number.\<close>

fun entry_ok :: "'f json \<Rightarrow> bool" where
  "entry_ok (JObj kvs) =
     (case map_of kvs ''programs_count'' of None \<Rightarrow> True | Some v \<Rightarrow> is_number v)"
| "entry_ok _ = False"

text \<open>
  A collection the merge accepts: a dict with a list of programs and a list of such
  university entries.
\<close>

definition well_formed_db :: "'f json \<Rightarrow> bool" where
  "well_formed_db database =
     (case database of
        JObj db \<Rightarrow>
          (case map_of db ''programs'' of
             Some (JList ps) \<Rightarrow>
               (case map_of db ''universities'' of
                  Some (JList us) \<Rightarrow> list_all entry_ok us
                | _ \<Rightarrow> False)
           | _ \<Rightarrow> False)
      | _ \<Rightarrow> False)"

text \<open>The url the membership test of line 54 sees for an entry, and the test itself.\<close>

definition url_or_empty :: "'f json \<Rightarrow> 'f json" where
  "url_or_empty u = (case field u ''url'' of None \<Rightarrow> JStr [] | Some v \<Rightarrow> v)"

definition known_url :: "string \<Rightarrow> 'f json list \<Rightarrow> bool" where
  "known_url url us = (JStr url \<in> set (map url_or_empty us))"

text \<open>Concrete inputs for the examples.\<close>

definition sample_env :: "unit env" where
  "sample_env =
     \<lparr>now = (\<lambda>k. ''T'' @ string_of_nat k), float_add = (\<lambda>x n. x), py_str = (\<lambda>v. ''?'')\<rparr>"

definition sample_db :: "unit json" where
  "sample_db =
     JObj [(''programs'',
            JList [JObj [(''name'', JStr ''Old Camp''), (''id'', JStr ''a.edu_Old Camp_0'')]]),
           (''universities'',
            JList [JObj [(''name'', JStr ''a.edu''), (''url'', JStr ''https://a.edu''),
                         (''scraped_at'', JStr ''T''), (''programs_count'', JInt 1)]]),
           (''last_updated'', JStr ''T''),
           (''total_programs'', JInt 1)]"

definition sample_record :: "unit json" where
  "sample_record = JObj [(''name'', JStr ''Code Camp'')]"

text \<open>What merging \<open>sample_record\<close> into \<open>sample_db\<close> from a new url gives.\<close>

definition sample_merged :: "unit json" where
  "sample_merged =
     JObj [(''programs'',
            JList [JObj [(''name'', JStr ''Old Camp''), (''id'', JStr ''a.edu_Old Camp_0'')],
                   JObj [(''name'', JStr ''Code Camp''), (''university'', JStr ''mit.edu''),
                         (''source_url'', JStr ''https://mit.edu/summer''),
                         (''added_at'', JStr ''T1''), (''id'', JStr ''mit.edu_Code Camp_1'')]]),
           (''universities'',
            JList [JObj [(''name'', JStr ''a.edu''), (''url'', JStr ''https://a.edu''),
                         (''scraped_at'', JStr ''T''), (''programs_count'', JInt 1)],
                   JObj [(''name'', JStr ''mit.edu''), (''url'', JStr ''https://mit.edu/summer''),
                         (''scraped_at'', JStr ''T0''), (''programs_count'', JInt 1)]]),
           (''last_updated'', JStr ''T2''),
           (''total_programs'', JInt 2)]"

text \<open>
  The display name as the specification words it: one leading scheme prefix stripped,
  then cut at the first slash. It is compared with \<open>university_name_of\<close> below.
\<close>

definition spec_display_name :: "string \<Rightarrow> string" where
  "spec_display_name sourceUrl =
     takeWhile (\<lambda>c. c \<noteq> CHR ''/'')
       (if prefix ''https://'' sourceUrl then drop 8 sourceUrl
        else if prefix ''http://'' sourceUrl then drop 7 sourceUrl
        else sourceUrl)"

text \<open>The university entries whose url is a given string.\<close>

definition entries_with_url :: "string \<Rightarrow> 'f json list \<Rightarrow> 'f json list" where
  "entries_with_url s us = filter (\<lambda>u. field u ''url'' = Some (JStr s)) us"

text \<open>What merging the empty batch into \<open>sample_db\<close> under its known url gives.\<close>

definition sample_rescanned :: "unit json" where
  "sample_rescanned =
     JObj [(''programs'',
            JList [JObj [(''name'', JStr ''Old Camp''), (''id'', JStr ''a.edu_Old Camp_0'')]]),
           (''universities'',
            JList [JObj [(''name'', JStr ''a.edu''), (''url'', JStr ''https://a.edu''),
                         (''scraped_at'', JStr ''T0''), (''programs_count'', JInt 1)]]),
           (''last_updated'', JStr ''T1''),
           (''total_programs'', JInt 1)]"

text \<open>The same under the url with a trailing slash, and then again under the known url.\<close>

definition sample_slash :: "unit json" where
  "sample_slash =
     JObj [(''programs'',
            JList [JObj [(''name'', JStr ''Old Camp''), (''id'', JStr ''a.edu_Old Camp_0'')]]),
           (''universities'',
            JList [JObj [(''name'', JStr ''a.edu''), (''url'', JStr ''https://a.edu''),
                         (''scraped_at'', JStr ''T''), (''programs_count'', JInt 1)],
                   JObj [(''name'', JStr ''a.edu''), (''url'', JStr ''https://a.edu/''),
                         (''scraped_at'', JStr ''T0''), (''programs_count'', JInt 0)]]),
           (''last_updated'', JStr ''T1''),
           (''total_programs'', JInt 1)]"

definition sample_slash_rescanned :: "unit json" where
  "sample_slash_rescanned =
     JObj [(''programs'',
            JList [JObj [(''name'', JStr ''Old Camp''), (''id'', JStr ''a.edu_Old Camp_0'')]]),
           (''universities'',
            JList [JObj [(''name'', JStr ''a.edu''), (''url'', JStr ''https://a.edu''),
                         (''scraped_at'', JStr ''T0''), (''programs_count'', JInt 1)],
                   JObj [(''name'', JStr ''a.edu''), (''url'', JStr ''https://a.edu/''),
                         (''scraped_at'', JStr ''T0''), (''programs_count'', JInt 0)]]),
           (''last_updated'', JStr ''T1''),
           (''total_programs'', JInt 1)]"

section \<open>main.py: the response handling of the Program Extractor\<close>

text \<open>Lines 132 to 137: strip, then cut a leading fence and the last three characters.\<close>

definition clean_response :: "string \<Rightarrow> string" where
  "clean_response content =
     (let result = strip content
      in if prefix ''```json'' result then slice_between 7 3 result
         else if prefix ''```'' result then slice_between 3 3 result
         else result)"

text \<open>
  What lines 123 to 132 give before the text is parsed: an exception with its message
  (raised by the client, the request or \<^verbatim>\<open>response.choices[0]\<close>), a message whose
  \<^verbatim>\<open>content\<close> is \<^verbatim>\<open>None\<close> (then \<^verbatim>\<open>.strip()\<close> raises), or the completion text.
\<close>

datatype api_outcome = ApiRaises string | NoContent | Completion string

text \<open>
  What \<^verbatim>\<open>json.loads(result)\<close> does: it returns a value, raises \<^verbatim>\<open>JSONDecodeError\<close>, or
  raises another exception with its message (\<^verbatim>\<open>RecursionError\<close> on deeply nested text,
  \<^verbatim>\<open>ValueError\<close> on an integer with too many digits).
\<close>

datatype 'f loads_outcome = Loads "'f json" | JSONDecodeError | LoadsRaises string

text \<open>
  Lines 140 to 150, given what \<^verbatim>\<open>json.loads(result)\<close> did: the inner handler takes the
  \<^verbatim>\<open>JSONDecodeError\<close>, every other exception reaches the outer handler.
\<close>

definition interpret_loads ::
  "string \<Rightarrow> 'f loads_outcome \<Rightarrow> notice list \<times> 'f json list option" where
  "interpret_loads result loaded =
     (case loaded of
        Loads programs \<Rightarrow> ([], Some (case programs of JList ps \<Rightarrow> ps | _ \<Rightarrow> []))
      | JSONDecodeError \<Rightarrow>
          ([StError ''Failed to parse AI response as JSON'', StCode result], Some [])
      | LoadsRaises msg \<Rightarrow> ([StError (''OpenAI API Error: '' @ msg)], None))"

text \<open>The function returns the notices it shows and its value; \<open>None\<close> is Python's.\<close>

definition extract_programs_with_openai ::
  "(string \<Rightarrow> 'f loads_outcome) \<Rightarrow> string \<Rightarrow> api_outcome
     \<Rightarrow> notice list \<times> 'f json list option" where
  "extract_programs_with_openai json_loads api_key outcome =
     (if api_key = [] then ([StError ''Please enter your OpenAI API key in the sidebar''], None)
      else (case outcome of
              ApiRaises msg \<Rightarrow> ([StError (''OpenAI API Error: '' @ msg)], None)
            | NoContent \<Rightarrow>
                ([StError (''OpenAI API Error: '' @ [CHR 0x27] @ ''NoneType'' @ [CHR 0x27] @
                           '' object has no attribute '' @ [CHR 0x27] @ ''strip'' @ [CHR 0x27])],
                 None)
            | Completion content \<Rightarrow>
                (let result = clean_response content
                 in interpret_loads result (json_loads result))))"

text \<open>
  Wrapped in a code fence, as the specification words it: the text opens with a fence
  marker and closes with another one.
\<close>

definition spec_wrapped_in_fence :: "string \<Rightarrow> bool" where
  "spec_wrapped_in_fence s = (6 \<le> length s \<and> prefix ''```'' s \<and> suffix ''```'' s)"

text \<open>
  A parser for the examples: it knows the empty array, raises on a thousand opening
  brackets as the recursion limit makes \<^verbatim>\<open>json.loads\<close> do, and rejects the rest.
\<close>

definition sample_loads :: "string \<Rightarrow> unit loads_outcome" where
  "sample_loads s =
     (if s = ''[]'' then Loads (JList [])
      else if s = replicate 1000 CHR ''[''
           then LoadsRaises ''maximum recursion depth exceeded while decoding a JSON array''
      else JSONDecodeError)"

section \<open>The loop over the new records, on a store\<close>

text \<open>
  For the question whether the merge writes to the objects it is given, the loop of
  lines 71 to 78 is modelled a second time over a store of objects: a cell holds a
  value (a record dict, with its nested values by value) or a list of references (the
  batch). An address is an index of the store; \<^verbatim>\<open>copy()\<close> allocates at the end. The
  database is the dict \<^verbatim>\<open>load_database\<close> has just built, which nothing else refers to,
  so it stays a value.
\<close>

datatype 'f cell = Obj "'f json" | Refs "nat list"

definition cell_at :: "'f cell list \<Rightarrow> nat \<Rightarrow> 'f cell option" where
  "cell_at h a = (if a < length h then Some (h ! a) else None)"

text \<open>\<^verbatim>\<open>d[k] = v\<close> on the dict at address \<open>c\<close>.\<close>

definition set_item :: "'f cell list \<Rightarrow> nat \<Rightarrow> string \<Rightarrow> 'f json \<Rightarrow> 'f cell list" where
  "set_item h c k v =
     (case cell_at h c of
        Some (Obj (JObj kvs)) \<Rightarrow> h[c := Obj (JObj (AList.update k v kvs))]
      | _ \<Rightarrow> h)"

text \<open>\<^verbatim>\<open>program.get('name', 'unknown')\<close>, read from the original record.\<close>

definition name_or_unknown :: "'f cell option \<Rightarrow> 'f json" where
  "name_or_unknown x =
     (case x of
        Some (Obj (JObj kvs)) \<Rightarrow>
          (case map_of kvs ''name'' of None \<Rightarrow> JStr ''unknown'' | Some v \<Rightarrow> v)
      | _ \<Rightarrow> JStr ''unknown'')"

text \<open>
  One pass of the loop body for the record at address \<open>a\<close>: the store after it, and the
  database or the exception.
\<close>

definition stamp_record ::
  "'f env \<Rightarrow> string \<Rightarrow> string \<Rightarrow> nat \<Rightarrow> (string \<times> 'f json) list \<Rightarrow> nat \<Rightarrow> 'f cell list
     \<Rightarrow> 'f cell list \<times> (py_error + (string \<times> 'f json) list)" where
  "stamp_record E name url t db a h =
     (case cell_at h a of
        Some (Obj (JObj kvs)) \<Rightarrow>
          (let c = length h;
               h1 = h @ [Obj (JObj kvs)];
               h2 = set_item h1 c ''university'' (JStr name);
               h3 = set_item h2 c ''source_url'' (JStr url);
               h4 = set_item h3 c ''added_at'' (JStr (now E t))
           in case map_of db ''programs'' of
                None \<Rightarrow> (h4, Inl KeyError)
              | Some pv \<Rightarrow>
                  (case py_len pv of
                     Inl e \<Rightarrow> (h4, Inl e)
                   | Inr n \<Rightarrow>
                       (let h5 = set_item h4 c ''id''
                                   (JStr (name @ ''_'' @
                                          format_value E (name_or_unknown (cell_at h4 a)) @
                                          ''_'' @ string_of_nat n))
                        in case pv of
                             JList existing \<Rightarrow>
                               (case cell_at h5 c of
                                  Some (Obj v) \<Rightarrow>
                                    (h5, Inr (AList.update ''programs''
                                                (JList (existing @ [v])) db))
                                | _ \<Rightarrow> (h5, Inl AttributeError))
                           | _ \<Rightarrow> (h5, Inl AttributeError))))
      | Some (Obj (JList xs)) \<Rightarrow> (h @ [Obj (JList xs)], Inl TypeError)
      | Some (Refs as) \<Rightarrow> (h @ [Refs as], Inl TypeError)
      | _ \<Rightarrow> (h, Inl AttributeError))"

text \<open>
  The loop reads the batch list at address \<open>b\<close> by index, as a Python \<^verbatim>\<open>for\<close> does, so
  that a write to the list during the loop would be seen.
\<close>

function add_records_heap ::
  "'f env \<Rightarrow> string \<Rightarrow> string \<Rightarrow> nat \<Rightarrow> nat \<Rightarrow> nat \<Rightarrow> (string \<times> 'f json) list \<Rightarrow> 'f cell list
     \<Rightarrow> 'f cell list \<times> (py_error + nat \<times> (string \<times> 'f json) list)" where
  "add_records_heap E name url b i t db h =
     (case cell_at h b of
        Some (Refs as) \<Rightarrow>
          if i < length as then
            (let r = stamp_record E name url t db (as ! i) h
             in case snd r of
                  Inl e \<Rightarrow> (fst r, Inl e)
                | Inr db' \<Rightarrow> add_records_heap E name url b (Suc i) (Suc t) db' (fst r))
          else (h, Inr (t, db))
      | _ \<Rightarrow> (h, Inl TypeError))"
  by pat_completeness auto
termination
proof (relation "measure (\<lambda>(E, name, url, b, i, t, db, h).
                   case cell_at h b of Some (Refs as) \<Rightarrow> length as - i | _ \<Rightarrow> 0)")
  show "wf (measure (\<lambda>(E :: 'f env, name :: string, url :: string, b, i, t :: nat,
                        db :: (string \<times> 'f json) list, h).
                   case cell_at h b of Some (Refs as) \<Rightarrow> length as - i | _ \<Rightarrow> 0))"
    by simp
next
  fix E :: "'f env" and name url :: string and b i t :: nat
    and db :: "(string \<times> 'f json) list" and h :: "'f cell list"
    and x2 :: "'f cell" and as :: "nat list" and r and db'
  assume c: "cell_at h b = Some x2" and x2: "x2 = Refs as" and i: "i < length as"
    and r: "r = stamp_record E name url t db (as ! i) h"
  from c have b: "b < length h" by (simp add: cell_at_def split: if_splits)
  have keep: "take n (set_item g c k v) = take n g" if "n \<le> c"
    for n c k and v :: "'f json" and g :: "'f cell list"
    using that by (simp add: set_item_def split: option.splits cell.splits json.splits)
  have len: "length (set_item g c k v) = length g"
    for c k and v :: "'f json" and g :: "'f cell list"
    by (simp add: set_item_def split: option.splits cell.splits json.splits)
  have "length h \<le> length (fst r) \<and> take (length h) (fst r) = h"
    unfolding r
    by (simp add: stamp_record_def Let_def keep len
        split: option.splits cell.splits json.splits sum.splits)
  then have "take (length h) (fst r) ! b = h ! b" and "b < length (fst r)"
    using b by simp_all
  with b have "fst r ! b = h ! b" by simp
  with c x2 \<open>b < length (fst r)\<close> have "cell_at (fst r) b = Some (Refs as)"
    by (simp add: cell_at_def split: if_splits)
  with c x2 i
  show "((E, name, url, b, Suc i, Suc t, db', fst r), (E, name, url, b, i, t, db, h))
          \<in> measure (\<lambda>(E, name, url, b, i, t, db, h).
                   case cell_at h b of Some (Refs as) \<Rightarrow> length as - i | _ \<Rightarrow> 0)"
    by simp
qed

declare add_records_heap.simps [simp del]

text \<open>The value of the record at an address.\<close>

definition obj_at :: "'f cell list \<Rightarrow> nat \<Rightarrow> 'f json" where
  "obj_at h a = (case cell_at h a of Some (Obj v) \<Rightarrow> v | _ \<Rightarrow> JNull)"

text \<open>A store with one record and the batch list that holds it, before and after.\<close>

definition sample_heap :: "unit cell list" where
  "sample_heap = [Obj (JObj [(''name'', JStr ''Code Camp'')]), Refs [0]]"

definition sample_heap_after :: "unit cell list" where
  "sample_heap_after =
     [Obj (JObj [(''name'', JStr ''Code Camp'')]),
      Refs [0],
      Obj (JObj [(''name'', JStr ''Code Camp''), (''university'', JStr ''mit.edu''),
                 (''source_url'', JStr ''https://mit.edu/summer''),
                 (''added_at'', JStr ''T1''), (''id'', JStr ''mit.edu_Code Camp_0'')])]"

section \<open>Auxiliary facts\<close>

lemma split_py_nonempty: "split_py sep s \<noteq> []"
  by (induction s) (auto split: list.splits)

lemma hd_split_py: "hd (split_py sep s) = takeWhile (\<lambda>c. c \<noteq> sep) s"
  by (induction s) (auto split: list.splits simp: split_py_nonempty)

lemma bindE_Inr_iff: "bindE m f = Inr y \<longleftrightarrow> (\<exists>x. m = Inr x \<and> f x = Inr y)"
  by (cases m) (simp_all add: bindE_def)

lemma bindE_Inr [simp]: "bindE (Inr x) f = f x"
  by (simp add: bindE_def)

lemma bindE_Inl [simp]: "bindE (Inl e) f = Inl e"
  by (simp add: bindE_def)

lemma map_of_update_same: "map_of (AList.update k v al) k = Some v"
  by (simp add: update_conv')

lemma map_of_update_other: "k' \<noteq> k \<Longrightarrow> map_of (AList.update k v al) k' = map_of al k'"
  by (simp add: update_conv')

lemma update_metadata_Inr:
  assumes "update_metadata E t db = Inr d"
  shows "\<exists>pv n. map_of db ''programs'' = Some pv \<and> py_len pv = Inr n \<and>
           d = JObj (AList.update ''total_programs'' (JInt (int n))
                       (AList.update ''last_updated'' (JStr (now E t)) db))"
  using assms
  by (auto simp: update_metadata_def Let_def map_of_update_other bindE_Inr_iff split: option.splits)

lemma update_metadata_total:
  assumes "map_of db ''programs'' = Some (JList ps)"
  shows "update_metadata E t db = Inr (JObj (AList.update ''total_programs'' (JInt (int (length ps)))
                       (AList.update ''last_updated'' (JStr (now E t)) db)))"
  using assms by (simp add: update_metadata_def Let_def map_of_update_other)

lemma add_records_Inr:
  assumes "add_records E name url ps t db = Inr (t', db')"
    and "map_of db ''programs'' = Some (JList ex)"
  shows "t' = t + length ps \<and>
         (\<exists>news. db' = AList.update ''programs'' (JList (ex @ news)) db \<and>
            length news = length ps \<and>
            (\<forall>i<length ps. \<exists>kvs. ps ! i = JObj kvs \<and>
               news ! i = JObj (program_with_meta E name url (t + i) (length ex + i) kvs)))"
  using assms
proof (induction ps arbitrary: t db ex)
  case Nil
  then show ?case by (simp add: update_triv)
next
  case (Cons p ps)
  from Cons.prems obtain kvs where p: "p = JObj kvs"
    by (cases p) auto
  let ?r = "JObj (program_with_meta E name url t (length ex) kvs)"
  let ?db1 = "AList.update ''programs'' (JList (ex @ [?r])) db"
  from Cons.prems p have run: "add_records E name url ps (Suc t) ?db1 = Inr (t', db')"
    by simp
  have look: "map_of ?db1 ''programs'' = Some (JList (ex @ [?r]))"
    by (simp add: map_of_update_same)
  from Cons.IH [OF run look] obtain news where
    t': "t' = Suc t + length ps" and
    db': "db' = AList.update ''programs'' (JList ((ex @ [?r]) @ news)) ?db1" and
    len: "length news = length ps" and
    each: "\<forall>i<length ps. \<exists>kvs. ps ! i = JObj kvs \<and>
               news ! i = JObj (program_with_meta E name url (Suc t + i) (length (ex @ [?r]) + i) kvs)"
    by blast
  have "db' = AList.update ''programs'' (JList (ex @ (?r # news))) db"
    using db' by simp
  moreover have "length (?r # news) = length (p # ps)"
    using len by simp
  moreover have "\<forall>i<length (p # ps). \<exists>kvs. (p # ps) ! i = JObj kvs \<and>
               (?r # news) ! i = JObj (program_with_meta E name url (t + i) (length ex + i) kvs)"
  proof (intro allI impI)
    fix i assume i: "i < length (p # ps)"
    show "\<exists>kvs. (p # ps) ! i = JObj kvs \<and>
               (?r # news) ! i = JObj (program_with_meta E name url (t + i) (length ex + i) kvs)"
    proof (cases i)
      case 0
      then show ?thesis using p by simp
    next
      case (Suc j)
      with i have "j < length ps" by simp
      with each Suc show ?thesis by auto
    qed
  qed
  ultimately show ?case using t' by (intro conjI exI [of _ "?r # news"]) simp_all
qed

lemma add_records_total:
  assumes "list_all is_obj ps"
    and "map_of db ''programs'' = Some (JList ex)"
  shows "\<exists>t' db'. add_records E name url ps t db = Inr (t', db')"
  using assms
proof (induction ps arbitrary: t db ex)
  case Nil
  then show ?case by simp
next
  case (Cons p ps)
  from Cons.prems obtain kvs where p: "p = JObj kvs"
    by (cases p) auto
  let ?db1 = "AList.update ''programs''
                (JList (ex @ [JObj (program_with_meta E name url t (length ex) kvs)])) db"
  have "\<exists>t' db'. add_records E name url ps (Suc t) ?db1 = Inr (t', db')"
    using Cons.prems by (intro Cons.IH) (simp_all add: map_of_update_same)
  then show ?case using p Cons.prems by simp
qed

lemma obj_get_Inr: "obj_get u k d = Inr v \<Longrightarrow> \<exists>kvs. u = JObj kvs \<and> v = (case map_of kvs k of None \<Rightarrow> d | Some w \<Rightarrow> w)"
  by (cases u) auto

lemma update_existing_Inr:
  assumes "update_existing E url n t us = Inr (t', us')"
  shows "length us' = length us \<and>
         (\<forall>i<length us.
            (field (us ! i) ''url'' \<noteq> Some (JStr url) \<longrightarrow> us' ! i = us ! i) \<and>
            (field (us ! i) ''url'' = Some (JStr url) \<longrightarrow>
               (\<exists>kvs c k. us ! i = JObj kvs \<and>
                  py_add_len E (case map_of kvs ''programs_count'' of None \<Rightarrow> JInt 0 | Some v \<Rightarrow> v) n = Inr c \<and>
                  us' ! i = JObj (AList.update ''programs_count'' c
                                    (AList.update ''scraped_at'' (JStr (now E k)) kvs)))))"
  using assms
proof (induction us arbitrary: t t' us')
  case Nil
  then show ?case by simp
next
  case (Cons u us)
  from Cons.prems obtain kvs where u: "u = JObj kvs"
    by (cases u) auto
  let ?P = "\<lambda>xs xs' i.
            (field (xs ! i) ''url'' \<noteq> Some (JStr url) \<longrightarrow> xs' ! i = xs ! i) \<and>
            (field (xs ! i) ''url'' = Some (JStr url) \<longrightarrow>
               (\<exists>kvs c k. xs ! i = JObj kvs \<and>
                  py_add_len E (case map_of kvs ''programs_count'' of None \<Rightarrow> JInt 0 | Some v \<Rightarrow> v) n = Inr c \<and>
                  xs' ! i = JObj (AList.update ''programs_count'' c
                                    (AList.update ''scraped_at'' (JStr (now E k)) kvs))))"
  show ?case
  proof (cases "map_of kvs ''url'' = Some (JStr url)")
    case True
    let ?kvs1 = "AList.update ''scraped_at'' (JStr (now E t)) kvs"
    have pc: "map_of ?kvs1 ''programs_count'' = map_of kvs ''programs_count''"
      by (simp add: map_of_update_other)
    from Cons.prems u True pc obtain c rest where
      c: "py_add_len E (case map_of kvs ''programs_count'' of None \<Rightarrow> JInt 0 | Some v \<Rightarrow> v) n = Inr c"
      and run: "update_existing E url n (Suc t) us = Inr (t', rest)"
      and us': "us' = JObj (AList.update ''programs_count'' c ?kvs1) # rest"
      by (auto simp: Let_def split: sum.splits)
    from Cons.IH [OF run] have len: "length rest = length us" and each: "\<forall>i<length us. ?P us rest i"
      by simp_all
    have "\<forall>i<length (u # us). ?P (u # us) us' i"
    proof (intro allI impI)
      fix i assume i: "i < length (u # us)"
      show "?P (u # us) us' i"
      proof (cases i)
        case 0
        then show ?thesis using u True c us' by auto
      next
        case (Suc j)
        with i have "j < length us" by simp
        with each have "?P us rest j" by blast
        then show ?thesis using Suc us' by simp
      qed
    qed
    then show ?thesis using len us' by simp
  next
    case False
    from Cons.prems u False obtain rest where
      run: "update_existing E url n t us = Inr (t', rest)"
      and us': "us' = u # rest"
      by (auto split: sum.splits)
    from Cons.IH [OF run] have len: "length rest = length us" and each: "\<forall>i<length us. ?P us rest i"
      by simp_all
    have "\<forall>i<length (u # us). ?P (u # us) us' i"
    proof (intro allI impI)
      fix i assume i: "i < length (u # us)"
      show "?P (u # us) us' i"
      proof (cases i)
        case 0
        then show ?thesis using u False us' by simp
      next
        case (Suc j)
        with i have "j < length us" by simp
        with each have "?P us rest j" by blast
        then show ?thesis using Suc us' by simp
      qed
    qed
    then show ?thesis using len us' by simp
  qed
qed

lemma py_add_len_number: "is_number v \<Longrightarrow> \<exists>c. py_add_len E v n = Inr c \<and> is_number c"
  by (cases v) auto

lemma update_existing_total:
  assumes "list_all entry_ok us"
  shows "\<exists>t' us'. update_existing E url n t us = Inr (t', us') \<and> list_all entry_ok us'"
  using assms
proof (induction us arbitrary: t)
  case Nil
  then show ?case by simp
next
  case (Cons u us)
  from Cons.prems obtain kvs where u: "u = JObj kvs"
    by (cases u) auto
  let ?v = "case map_of kvs ''programs_count'' of None \<Rightarrow> JInt 0 | Some v \<Rightarrow> v"
  from Cons.prems u have "is_number ?v"
    by (auto split: option.splits)
  then obtain c where c: "py_add_len E ?v n = Inr c" and cn: "is_number c"
    using py_add_len_number by blast
  from Cons.prems have rest: "list_all entry_ok us" by simp
  show ?case
  proof (cases "map_of kvs ''url'' = Some (JStr url)")
    case True
    from Cons.IH [OF rest, of "Suc t"] obtain t' us' where
      "update_existing E url n (Suc t) us = Inr (t', us')" "list_all entry_ok us'" by blast
    then show ?thesis using u True c cn
      by (simp add: Let_def map_of_update_other map_of_update_same)
  next
    case False
    from Cons.IH [OF rest, of t] obtain t' us' where
      "update_existing E url n t us = Inr (t', us')" "list_all entry_ok us'" by blast
    then show ?thesis using u False Cons.prems by simp
  qed
qed

lemma mapE_obj_get_Inr:
  assumes "mapE (\<lambda>u. obj_get u ''url'' (JStr [])) us = Inr ys"
  shows "list_all is_obj us \<and> ys = map url_or_empty us"
  using assms
proof (induction us arbitrary: ys)
  case Nil
  then show ?case by simp
next
  case (Cons u us)
  from Cons.prems obtain y ys' where
    y: "obj_get u ''url'' (JStr []) = Inr y" and rest: "mapE (\<lambda>u. obj_get u ''url'' (JStr [])) us = Inr ys'"
    and ys: "ys = y # ys'"
    by (auto split: sum.splits)
  from obj_get_Inr [OF y] have "is_obj u" "y = url_or_empty u"
    by (auto simp: url_or_empty_def)
  with Cons.IH [OF rest] ys show ?case by simp
qed

lemma mapE_obj_get_total:
  "list_all is_obj us \<Longrightarrow> mapE (\<lambda>u. obj_get u ''url'' (JStr [])) us = Inr (map url_or_empty us)"
proof (induction us)
  case Nil
  then show ?case by simp
next
  case (Cons u us)
  then obtain kvs where "u = JObj kvs" by (cases u) auto
  with Cons show ?case by (simp add: url_or_empty_def)
qed

lemma iter_items_objs:
  assumes "iter_items uv = Inr us" and "list_all is_obj us" and "us \<noteq> []"
  shows "uv = JList us"
  using assms by (cases uv; cases us) auto

lemma update_universities_new:
  assumes "update_universities E name url n db = Inr (t, db1)"
    and "map_of db ''universities'' = Some (JList us)"
    and "\<not> known_url url us"
  shows "t = Suc 0 \<and> db1 = AList.update ''universities'' (JList (us @ [university_info E name url 0 n])) db"
proof -
  from assms(1,2) obtain ys where ys: "mapE (\<lambda>u. obj_get u ''url'' (JStr [])) us = Inr ys"
    by (auto simp: update_universities_def bindE_Inr_iff)
  from mapE_obj_get_Inr [OF ys] have "ys = map url_or_empty us" by simp
  with assms ys show ?thesis
    by (auto simp: update_universities_def known_url_def)
qed

lemma update_universities_known:
  assumes "update_universities E name url n db = Inr (t, db1)"
    and "map_of db ''universities'' = Some (JList us)"
    and "known_url url us"
  shows "\<exists>us'. update_existing E url n 0 us = Inr (t, us') \<and>
           db1 = AList.update ''universities'' (JList us') db"
proof -
  from assms(1,2) obtain ys where ys: "mapE (\<lambda>u. obj_get u ''url'' (JStr [])) us = Inr ys"
    by (auto simp: update_universities_def bindE_Inr_iff)
  from mapE_obj_get_Inr [OF ys] have "ys = map url_or_empty us" by simp
  with assms ys show ?thesis
    by (auto simp: update_universities_def known_url_def bindE_Inr_iff)
qed

lemma update_universities_list:
  assumes "update_universities E name url n db = Inr (t, db1)"
  shows "\<exists>us. map_of db ''universities'' = Some (JList us)"
proof -
  let ?uv = "case map_of db ''universities'' of None \<Rightarrow> JList [] | Some v \<Rightarrow> v"
  from assms obtain us ys where it: "iter_items ?uv = Inr us"
    and ys: "mapE (\<lambda>u. obj_get u ''url'' (JStr [])) us = Inr ys"
    by (auto simp: update_universities_def bindE_Inr_iff)
  from mapE_obj_get_Inr [OF ys] have objs: "list_all is_obj us" and ys_eq: "ys = map url_or_empty us"
    by simp_all
  show ?thesis
  proof (cases "JStr url \<in> set ys")
    case False
    with assms it ys show ?thesis
      by (auto simp: update_universities_def split: option.splits json.splits)
  next
    case True
    then have "us \<noteq> []" using ys_eq by auto
    from iter_items_objs [OF it objs this] have uv: "?uv = JList us" .
    from assms it ys True have "map_of db ''universities'' \<noteq> None"
      by (auto simp: update_universities_def split: option.splits)
    with uv show ?thesis by auto
  qed
qed

lemma update_universities_total:
  assumes "map_of db ''universities'' = Some (JList us)" and "list_all entry_ok us"
  shows "\<exists>t us'. update_universities E name url n db = Inr (t, AList.update ''universities'' (JList us') db)
            \<and> list_all entry_ok us'"
proof -
  have objs: "list_all is_obj us"
    using assms(2) by (induction us) (auto elim: entry_ok.elims)
  note ys = mapE_obj_get_total [OF objs]
  show ?thesis
  proof (cases "known_url url us")
    case True
    from update_existing_total [OF assms(2), of E url n 0] obtain t' us' where
      "update_existing E url n 0 us = Inr (t', us')" "list_all entry_ok us'" by blast
    with assms ys True show ?thesis
      by (auto simp: update_universities_def known_url_def)
  next
    case False
    have "entry_ok (university_info E name url 0 n)"
      by (simp add: university_info_def)
    with assms ys False show ?thesis
      by (auto simp: update_universities_def known_url_def)
  qed
qed

lemma merge_Inr:
  assumes "merge E database ps url = Inr d"
  shows "\<exists>db t db1 t' db2. database = JObj db \<and>
           update_universities E (university_name_of url) url (length ps) db = Inr (t, db1) \<and>
           add_records E (university_name_of url) url ps t db1 = Inr (t', db2) \<and>
           update_metadata E t' db2 = Inr d"
proof -
  from assms obtain db where db: "database = JObj db"
    by (cases database) (auto simp: merge_def)
  from assms db obtain x where
    x: "update_universities E (university_name_of url) url (length ps) db = Inr x"
    and rest: "(case x of (t, db1) \<Rightarrow>
                  bindE (add_records E (university_name_of url) url ps t db1)
                    (\<lambda>(t', db2). update_metadata E t' db2)) = Inr d"
    by (auto simp: merge_def Let_def bindE_Inr_iff)
  obtain t db1 where xe: "x = (t, db1)" by (cases x)
  from rest xe obtain y where
    y: "add_records E (university_name_of url) url ps t db1 = Inr y"
    and fin: "(case y of (t', db2) \<Rightarrow> update_metadata E t' db2) = Inr d"
    by (auto simp: bindE_Inr_iff)
  obtain t' db2 where ye: "y = (t', db2)" by (cases y)
  from db x xe y ye fin show ?thesis by auto
qed

lemma update_universities_shape:
  assumes "update_universities E name url n db = Inr (t, db1)"
  shows "\<exists>us us'. map_of db ''universities'' = Some (JList us) \<and>
           db1 = AList.update ''universities'' (JList us') db"
proof -
  from update_universities_list [OF assms] obtain us where
    us: "map_of db ''universities'' = Some (JList us)" by blast
  show ?thesis
  proof (cases "known_url url us")
    case True
    from update_universities_known [OF assms us True] us show ?thesis by blast
  next
    case False
    from update_universities_new [OF assms us False] us show ?thesis by blast
  qed
qed

lemma merge_programs:
  assumes "merge E (JObj db) ps url = Inr d"
    and "map_of db ''programs'' = Some (JList ex)"
  shows "\<exists>t us' news.
           update_universities E (university_name_of url) url (length ps) db =
             Inr (t, AList.update ''universities'' (JList us') db) \<and>
           length news = length ps \<and>
           (\<forall>i<length ps. \<exists>kvs. ps ! i = JObj kvs \<and>
               news ! i = JObj (program_with_meta E (university_name_of url) url (t + i)
                                  (length ex + i) kvs)) \<and>
           d = JObj (AList.update ''total_programs'' (JInt (int (length ex + length ps)))
                  (AList.update ''last_updated'' (JStr (now E (t + length ps)))
                     (AList.update ''programs'' (JList (ex @ news))
                        (AList.update ''universities'' (JList us') db))))"
proof -
  let ?name = "university_name_of url"
  from merge_Inr [OF assms(1)] obtain t db1 t' db2 where
    uu: "update_universities E ?name url (length ps) db = Inr (t, db1)"
    and ar: "add_records E ?name url ps t db1 = Inr (t', db2)"
    and um: "update_metadata E t' db2 = Inr d"
    by auto
  from update_universities_shape [OF uu] obtain us' where
    db1: "db1 = AList.update ''universities'' (JList us') db" by blast
  have look: "map_of db1 ''programs'' = Some (JList ex)"
    using assms(2) db1 by (simp add: map_of_update_other)
  from add_records_Inr [OF ar look] obtain news where
    t': "t' = t + length ps"
    and db2: "db2 = AList.update ''programs'' (JList (ex @ news)) db1"
    and len: "length news = length ps"
    and each: "\<forall>i<length ps. \<exists>kvs. ps ! i = JObj kvs \<and>
               news ! i = JObj (program_with_meta E ?name url (t + i) (length ex + i) kvs)"
    by blast
  have look2: "map_of db2 ''programs'' = Some (JList (ex @ news))"
    using db2 by (simp add: map_of_update_same)
  from um update_metadata_total [OF look2, of E t'] have
    "d = JObj (AList.update ''total_programs'' (JInt (int (length (ex @ news))))
                       (AList.update ''last_updated'' (JStr (now E t')) db2))"
    by simp
  with t' db2 db1 len have
    "d = JObj (AList.update ''total_programs'' (JInt (int (length ex + length ps)))
                  (AList.update ''last_updated'' (JStr (now E (t + length ps)))
                     (AList.update ''programs'' (JList (ex @ news))
                        (AList.update ''universities'' (JList us') db))))"
    by simp
  with uu db1 len each show ?thesis by blast
qed

lemma well_formed_dbD:
  assumes "well_formed_db database"
  shows "\<exists>db ex us. database = JObj db \<and> map_of db ''programs'' = Some (JList ex) \<and>
           map_of db ''universities'' = Some (JList us) \<and> list_all entry_ok us"
proof -
  from assms obtain db where db: "database = JObj db"
    by (cases database) (simp_all add: well_formed_db_def)
  from assms db obtain pv where pv: "map_of db ''programs'' = Some pv"
    by (cases "map_of db ''programs''") (simp_all add: well_formed_db_def)
  from assms db pv obtain ex where ex: "pv = JList ex"
    by (cases pv) (simp_all add: well_formed_db_def)
  from assms db pv ex obtain uv where uv: "map_of db ''universities'' = Some uv"
    by (cases "map_of db ''universities''") (simp_all add: well_formed_db_def)
  from assms db pv ex uv obtain us where us: "uv = JList us"
    by (cases uv) (simp_all add: well_formed_db_def)
  from assms db pv ex uv us have "list_all entry_ok us"
    by (simp add: well_formed_db_def)
  with db pv ex uv us show ?thesis by blast
qed

lemma merge_total:
  assumes "well_formed_db database" and "list_all is_obj ps"
  shows "\<exists>d xs. merge E database ps url = Inr d \<and> well_formed_db d \<and>
           field d ''programs'' = Some (JList xs) \<and>
           field d ''total_programs'' = Some (JInt (int (length xs)))"
proof -
  let ?name = "university_name_of url"
  from well_formed_dbD [OF assms(1)] obtain db ex us where db: "database = JObj db"
    and ex: "map_of db ''programs'' = Some (JList ex)"
    and us: "map_of db ''universities'' = Some (JList us)"
    and ok: "list_all entry_ok us"
    by blast
  from update_universities_total [OF us ok, of E ?name url "length ps"] obtain t us' where
    uu: "update_universities E ?name url (length ps) db =
           Inr (t, AList.update ''universities'' (JList us') db)"
    and ok': "list_all entry_ok us'" by blast
  let ?db1 = "AList.update ''universities'' (JList us') db"
  have look: "map_of ?db1 ''programs'' = Some (JList ex)"
    using ex by (simp add: map_of_update_other)
  from add_records_total [OF assms(2) look, of E ?name url t] obtain t' db2 where
    ar: "add_records E ?name url ps t ?db1 = Inr (t', db2)" by blast
  from add_records_Inr [OF ar look] obtain news where
    db2: "db2 = AList.update ''programs'' (JList (ex @ news)) ?db1" by blast
  have look2: "map_of db2 ''programs'' = Some (JList (ex @ news))"
    using db2 by (simp add: map_of_update_same)
  let ?d = "JObj (AList.update ''total_programs'' (JInt (int (length (ex @ news))))
                       (AList.update ''last_updated'' (JStr (now E t')) db2))"
  have run: "merge E database ps url = Inr ?d"
    using db uu ar update_metadata_total [OF look2, of E t']
    by (simp add: merge_def Let_def)
  have "well_formed_db ?d"
    using db2 ok' by (simp add: well_formed_db_def map_of_update_other map_of_update_same)
  moreover have "field ?d ''programs'' = Some (JList (ex @ news))"
    using look2 by (simp add: map_of_update_other)
  moreover have "field ?d ''total_programs'' = Some (JInt (int (length (ex @ news))))"
    by (simp add: map_of_update_same)
  ultimately show ?thesis using run by blast
qed

lemma replace_py_absent:
  "old \<noteq> [] \<Longrightarrow> \<not> sublist old s \<Longrightarrow> replace_py old new s = s"
proof (induction s)
  case Nil
  then show ?case by simp
next
  case (Cons c cs)
  from Cons.prems have "\<not> prefix old (c # cs)" "\<not> sublist old cs"
    by (auto simp: sublist_Cons_right)
  with Cons show ?case by simp
qed

lemma replace_py_leading:
  "old \<noteq> [] \<Longrightarrow> replace_py old new (old @ s) = new @ replace_py old new s"
  by (cases old) simp_all

lemma university_name_of_eq:
  "university_name_of url =
     takeWhile (\<lambda>c. c \<noteq> CHR ''/'')
       (replace_py ''http://'' [] (replace_py ''https://'' [] url))"
  by (simp add: university_name_of_def hd_split_py)

lemma add_records_needs_list:
  assumes "add_records E name url (p # ps) t db = Inr r"
  shows "\<exists>ex. map_of db ''programs'' = Some (JList ex)"
proof -
  from assms obtain kvs where p: "p = JObj kvs" by (cases p) auto
  from assms p obtain pv where pv: "map_of db ''programs'' = Some pv"
    by (cases "map_of db ''programs''") auto
  from assms p pv show ?thesis
    by (cases pv) (auto split: sum.splits)
qed

lemma empty_merge_example:
  "add_programs_to_database E NoFile [JObj [(''name'', JStr ''Code Camp'')]] ''https://mit.edu/summer'' =
     Inr (JObj [(''programs'',
                 JList [JObj [(''name'', JStr ''Code Camp''), (''university'', JStr ''mit.edu''),
                              (''source_url'', JStr ''https://mit.edu/summer''),
                              (''added_at'', JStr (now E 1)),
                              (''id'', JStr ''mit.edu_Code Camp_0'')]]),
                (''universities'',
                 JList [JObj [(''name'', JStr ''mit.edu''), (''url'', JStr ''https://mit.edu/summer''),
                              (''scraped_at'', JStr (now E 0)), (''programs_count'', JInt 1)]]),
                (''last_updated'', JStr (now E 2)),
                (''total_programs'', JInt 1)])"
proof -
  have name: "university_name_of ''https://mit.edu/summer'' = ''mit.edu''"
    by (simp add: university_name_of_def)
  have zero: "string_of_nat 0 = ''0''"
    by code_simp
  show ?thesis
    by (simp add: add_programs_to_database_def merge_def empty_database_def name zero
        update_universities_def university_info_def program_with_meta_def update_metadata_def
        numeral_2_eq_2 Let_def)
qed

lemma add_records_other:
  assumes "add_records E name url ps t db = Inr (t', db')" and "k \<noteq> ''programs''"
  shows "map_of db' k = map_of db k"
  using assms
proof (induction ps arbitrary: t db)
  case Nil
  then show ?case by simp
next
  case (Cons p ps)
  from Cons.prems(1) obtain kvs where p: "p = JObj kvs" by (cases p) auto
  from add_records_needs_list [OF Cons.prems(1)] obtain ex where
    ex: "map_of db ''programs'' = Some (JList ex)" by blast
  let ?db1 = "AList.update ''programs''
                (JList (ex @ [JObj (program_with_meta E name url t (length ex) kvs)])) db"
  from Cons.prems(1) p ex have "add_records E name url ps (Suc t) ?db1 = Inr (t', db')"
    by simp
  from Cons.IH [OF this Cons.prems(2)] Cons.prems(2) show ?case
    by (simp add: map_of_update_other)
qed

lemma merge_universities:
  assumes "merge E (JObj db) ps url = Inr d"
  shows "\<exists>t us us'. map_of db ''universities'' = Some (JList us) \<and>
           update_universities E (university_name_of url) url (length ps) db =
             Inr (t, AList.update ''universities'' (JList us') db) \<and>
           field d ''universities'' = Some (JList us')"
proof -
  let ?name = "university_name_of url"
  from merge_Inr [OF assms] obtain t db1 t' db2 where
    uu: "update_universities E ?name url (length ps) db = Inr (t, db1)"
    and ar: "add_records E ?name url ps t db1 = Inr (t', db2)"
    and um: "update_metadata E t' db2 = Inr d"
    by auto
  from update_universities_shape [OF uu] obtain us us' where
    us: "map_of db ''universities'' = Some (JList us)"
    and db1: "db1 = AList.update ''universities'' (JList us') db" by blast
  have "map_of db2 ''universities'' = map_of db1 ''universities''"
    by (rule add_records_other [OF ar]) simp
  with db1 have u2: "map_of db2 ''universities'' = Some (JList us')"
    by (simp add: map_of_update_same)
  from update_metadata_Inr [OF um] obtain n where
    "d = JObj (AList.update ''total_programs'' (JInt (int n))
                       (AList.update ''last_updated'' (JStr (now E t')) db2))"
    by blast
  with u2 have "field d ''universities'' = Some (JList us')"
    by (simp add: map_of_update_other)
  with us uu db1 show ?thesis by blast
qed

lemma update_existing_urls:
  assumes "update_existing E url n t us = Inr (t', us')"
  shows "map (\<lambda>u. field u ''url'') us' = map (\<lambda>u. field u ''url'') us"
proof (rule nth_equalityI)
  from update_existing_Inr [OF assms] have len: "length us' = length us"
    and each: "\<forall>i<length us.
            (field (us ! i) ''url'' \<noteq> Some (JStr url) \<longrightarrow> us' ! i = us ! i) \<and>
            (field (us ! i) ''url'' = Some (JStr url) \<longrightarrow>
               (\<exists>kvs c k. us ! i = JObj kvs \<and>
                  py_add_len E (case map_of kvs ''programs_count'' of None \<Rightarrow> JInt 0 | Some v \<Rightarrow> v) n = Inr c \<and>
                  us' ! i = JObj (AList.update ''programs_count'' c
                                    (AList.update ''scraped_at'' (JStr (now E k)) kvs))))"
    by simp_all
  show "length (map (\<lambda>u. field u ''url'') us') = length (map (\<lambda>u. field u ''url'') us)"
    using len by simp
  fix i assume "i < length (map (\<lambda>u. field u ''url'') us')"
  then have i: "i < length us" using len by simp
  have "field (us' ! i) ''url'' = field (us ! i) ''url''"
  proof (cases "field (us ! i) ''url'' = Some (JStr url)")
    case True
    with each i obtain kvs c k where "us ! i = JObj kvs"
      "us' ! i = JObj (AList.update ''programs_count'' c
                                    (AList.update ''scraped_at'' (JStr (now E k)) kvs))"
      by blast
    then show ?thesis by (simp add: map_of_update_other)
  next
    case False
    with each i show ?thesis by simp
  qed
  then show "map (\<lambda>u. field u ''url'') us' ! i = map (\<lambda>u. field u ''url'') us ! i"
    using i len by simp
qed

lemma entries_with_url_map:
  "length (entries_with_url s us) =
     length (filter (\<lambda>v. v = Some (JStr s)) (map (\<lambda>u. field u ''url'') us))"
  by (simp add: entries_with_url_def filter_map comp_def)

lemma known_url_if_entry:
  "u \<in> set us \<Longrightarrow> field u ''url'' = Some (JStr url) \<Longrightarrow> known_url url us"
  by (force simp: known_url_def url_or_empty_def)

lemma unknown_url_no_entry: "\<not> known_url url us \<Longrightarrow> entries_with_url url us = []"
  unfolding entries_with_url_def filter_empty_conv
  using known_url_if_entry by blast

lemma field_url_info: "field (university_info E name url t n) ''url'' = Some (JStr url)"
  by (simp add: university_info_def)

lemma merge_universities_cases:
  assumes "merge E (JObj db) ps url = Inr d"
  shows "\<exists>us us'. map_of db ''universities'' = Some (JList us) \<and>
           field d ''universities'' = Some (JList us') \<and>
           (if known_url url us
            then (\<exists>t. update_existing E url (length ps) 0 us = Inr (t, us'))
            else us' = us @ [university_info E (university_name_of url) url 0 (length ps)])"
proof -
  let ?name = "university_name_of url"
  from merge_universities [OF assms] obtain t us us' where
    us: "map_of db ''universities'' = Some (JList us)"
    and uu: "update_universities E ?name url (length ps) db =
               Inr (t, AList.update ''universities'' (JList us') db)"
    and d: "field d ''universities'' = Some (JList us')"
    by blast
  show ?thesis
  proof (cases "known_url url us")
    case True
    from update_universities_known [OF uu us True] obtain us'' where
      ue: "update_existing E url (length ps) 0 us = Inr (t, us'')"
      and eq: "AList.update ''universities'' (JList us') db =
               AList.update ''universities'' (JList us'') db"
      by blast
    from eq have "JList us' = JList us''" by (rule update_eqD)
    with ue us d True show ?thesis by auto
  next
    case False
    from update_universities_new [OF uu us False] have
      "AList.update ''universities'' (JList us') db =
       AList.update ''universities'' (JList (us @ [university_info E ?name url 0 (length ps)])) db"
      by simp
    then have "JList us' = JList (us @ [university_info E ?name url 0 (length ps)])"
      by (rule update_eqD)
    with us d False show ?thesis by auto
  qed
qed

lemma merge_keeps_urls:
  assumes "merge E (JObj db) ps url = Inr d"
    and "map_of db ''universities'' = Some (JList us)"
  shows "\<exists>us'. field d ''universities'' = Some (JList us') \<and>
           map (\<lambda>u. field u ''url'') us' =
             map (\<lambda>u. field u ''url'') us @ (if known_url url us then [] else [Some (JStr url)])"
proof -
  from merge_universities_cases [OF assms(1)] assms(2) obtain us' where
    d: "field d ''universities'' = Some (JList us')"
    and c: "if known_url url us
            then (\<exists>t. update_existing E url (length ps) 0 us = Inr (t, us'))
            else us' = us @ [university_info E (university_name_of url) url 0 (length ps)]"
    by auto
  show ?thesis
  proof (cases "known_url url us")
    case True
    with c obtain t where "update_existing E url (length ps) 0 us = Inr (t, us')" by auto
    from update_existing_urls [OF this] d True show ?thesis by simp
  next
    case False
    with c d show ?thesis by (simp add: field_url_info)
  qed
qed

lemma known_url_entry:
  assumes "known_url url us" and "url \<noteq> []"
  shows "Some (JStr url) \<in> set (map (\<lambda>u. field u ''url'') us)"
proof -
  from assms(1) obtain u where u: "u \<in> set us" and "url_or_empty u = JStr url"
    by (auto simp: known_url_def)
  with assms(2) have "field u ''url'' = Some (JStr url)"
    by (cases "field u ''url''") (auto simp: url_or_empty_def)
  with u show ?thesis by force
qed

lemma merge_has_entry:
  assumes "merge E database ps url = Inr d" and "url \<noteq> []"
  shows "\<exists>us us'. field database ''universities'' = Some (JList us) \<and>
           field d ''universities'' = Some (JList us') \<and>
           set (map (\<lambda>u. field u ''url'') us) \<subseteq> set (map (\<lambda>u. field u ''url'') us') \<and>
           Some (JStr url) \<in> set (map (\<lambda>u. field u ''url'') us')"
proof -
  from merge_Inr [OF assms(1)] obtain db where db: "database = JObj db" by blast
  from merge_universities [OF assms(1) [unfolded db]] obtain us where
    us: "map_of db ''universities'' = Some (JList us)" by blast
  from merge_keeps_urls [OF assms(1) [unfolded db] us] obtain us' where
    d: "field d ''universities'' = Some (JList us')"
    and m: "map (\<lambda>u. field u ''url'') us' =
             map (\<lambda>u. field u ''url'') us @ (if known_url url us then [] else [Some (JStr url)])"
    by blast
  have "Some (JStr url) \<in> set (map (\<lambda>u. field u ''url'') us')"
  proof (cases "known_url url us")
    case True
    from known_url_entry [OF True assms(2)] m True show ?thesis by simp
  next
    case False
    with m show ?thesis by simp
  qed
  moreover have "set (map (\<lambda>u. field u ''url'') us) \<subseteq> set (map (\<lambda>u. field u ''url'') us')"
    unfolding m by auto
  ultimately show ?thesis using db us d by auto
qed

lemma two_urls_two_entries:
  assumes "merge E database ps u1 = Inr d1" and "merge E' d1 ps' u2 = Inr d2"
    and "u1 \<noteq> []" and "u2 \<noteq> []" and "u1 \<noteq> u2"
  shows "\<exists>us2 i j. field d2 ''universities'' = Some (JList us2) \<and>
           i < length us2 \<and> j < length us2 \<and> i \<noteq> j \<and>
           field (us2 ! i) ''url'' = Some (JStr u1) \<and>
           field (us2 ! j) ''url'' = Some (JStr u2)"
proof -
  from merge_has_entry [OF assms(1,3)] obtain us1 where
    d1: "field d1 ''universities'' = Some (JList us1)"
    and in1: "Some (JStr u1) \<in> set (map (\<lambda>u. field u ''url'') us1)"
    by blast
  from merge_has_entry [OF assms(2,4)] d1 obtain us2 where
    d2: "field d2 ''universities'' = Some (JList us2)"
    and sub: "set (map (\<lambda>u. field u ''url'') us1) \<subseteq> set (map (\<lambda>u. field u ''url'') us2)"
    and in2: "Some (JStr u2) \<in> set (map (\<lambda>u. field u ''url'') us2)"
    by auto
  from in1 sub have "Some (JStr u1) \<in> set (map (\<lambda>u. field u ''url'') us2)" by blast
  then obtain i where i: "i < length us2" "field (us2 ! i) ''url'' = Some (JStr u1)"
    by (auto simp: in_set_conv_nth)
  from in2 obtain j where j: "j < length us2" "field (us2 ! j) ''url'' = Some (JStr u2)"
    by (auto simp: in_set_conv_nth)
  from i j assms(5) have "i \<noteq> j" by auto
  with d2 i j show ?thesis by blast
qed

lemma merge_unique_urls:
  assumes "merge E database ps url = Inr d"
    and "field database ''universities'' = Some (JList us)"
    and "\<forall>s. length (entries_with_url s us) \<le> 1"
  shows "\<exists>us'. field d ''universities'' = Some (JList us') \<and>
           (\<forall>s. length (entries_with_url s us') \<le> 1)"
proof -
  from merge_Inr [OF assms(1)] obtain db where db: "database = JObj db" by blast
  with assms(2) have us: "map_of db ''universities'' = Some (JList us)" by simp
  from merge_keeps_urls [OF assms(1) [unfolded db] us] obtain us' where
    d: "field d ''universities'' = Some (JList us')"
    and m: "map (\<lambda>u. field u ''url'') us' =
             map (\<lambda>u. field u ''url'') us @ (if known_url url us then [] else [Some (JStr url)])"
    by blast
  have "length (entries_with_url s us') \<le> 1" for s
  proof (cases "known_url url us")
    case True
    with m have "length (entries_with_url s us') = length (entries_with_url s us)"
      by (simp add: entries_with_url_map)
    with assms(3) show ?thesis by simp
  next
    case False
    show ?thesis
    proof (cases "s = url")
      case True
      from unknown_url_no_entry [OF False] have "length (entries_with_url url us) = 0" by simp
      with m False True show ?thesis
        by (simp add: entries_with_url_map)
    next
      case neq: False
      with m False have "length (entries_with_url s us') = length (entries_with_url s us)"
        by (simp add: entries_with_url_map)
      with assms(3) show ?thesis by simp
    qed
  qed
  with d show ?thesis by blast
qed

lemma merge_known_no_append:
  assumes "merge E database ps url = Inr d"
    and "field database ''universities'' = Some (JList us)"
    and "\<exists>u\<in>set us. field u ''url'' = Some (JStr url)"
  shows "\<exists>us'. field d ''universities'' = Some (JList us') \<and> length us' = length us \<and>
           map (\<lambda>u. field u ''url'') us' = map (\<lambda>u. field u ''url'') us"
proof -
  from merge_Inr [OF assms(1)] obtain db where db: "database = JObj db" by blast
  with assms(2) have us: "map_of db ''universities'' = Some (JList us)" by simp
  from assms(3) have known: "known_url url us"
    using known_url_if_entry by blast
  from merge_keeps_urls [OF assms(1) [unfolded db] us] known obtain us' where
    d: "field d ''universities'' = Some (JList us')"
    and m: "map (\<lambda>u. field u ''url'') us' = map (\<lambda>u. field u ''url'') us"
    by auto
  from m have "length us' = length us" by (rule map_eq_imp_length_eq)
  with d m show ?thesis by blast
qed

lemma rev_dropWhile_split:
  "xs = rev (dropWhile P (rev xs)) @ rev (takeWhile P (rev xs))"
  by (metis rev_append rev_rev_ident takeWhile_dropWhile_id)

lemma strip_decompose:
  "\<exists>a b. content = a @ strip content @ b \<and> (\<forall>c\<in>set a. is_space c) \<and> (\<forall>c\<in>set b. is_space c)"
proof -
  let ?a = "takeWhile is_space content"
  let ?m = "dropWhile is_space content"
  let ?b = "rev (takeWhile is_space (rev ?m))"
  have m: "?m = strip content @ ?b"
    unfolding strip_def by (rule rev_dropWhile_split)
  have "content = ?a @ ?m" by simp
  with m have "content = ?a @ strip content @ ?b" by simp
  moreover have "\<forall>c\<in>set ?a. is_space c" by (auto dest: set_takeWhileD)
  moreover have "\<forall>c\<in>set ?b. is_space c" by (auto dest: set_takeWhileD)
  ultimately show ?thesis by blast
qed

lemma strip_ends:
  assumes "strip content \<noteq> []"
  shows "\<not> is_space (hd (strip content)) \<and> \<not> is_space (last (strip content))"
proof -
  let ?m = "dropWhile is_space content"
  let ?r = "dropWhile is_space (rev ?m)"
  have s: "strip content = rev ?r" by (simp add: strip_def)
  from assms s have rne: "?r \<noteq> []" by (metis rev.simps(1))
  then have "\<not> is_space (hd ?r)" by (rule hd_dropWhile)
  then have l: "\<not> is_space (last (strip content))"
    using rne s by (metis last_rev)
  from rne have mne: "?m \<noteq> []" by (metis dropWhile.simps(1) rev.simps(1))
  then have hm: "\<not> is_space (hd ?m)" by (rule hd_dropWhile)
  have "?m = strip content @ rev (takeWhile is_space (rev ?m))"
    unfolding strip_def by (rule rev_dropWhile_split)
  then have "hd ?m = hd (strip content)" using assms by (metis hd_append2)
  with hm l show ?thesis by simp
qed

lemma slice_between_wrapped:
  "slice_between (length a) (length c) (a @ body @ c) = body"
  by (simp add: slice_between_def)

lemma set_item_length [simp]: "length (set_item h c k v) = length h"
  by (simp add: set_item_def split: option.splits cell.splits json.splits)

lemma set_item_take: "n \<le> c \<Longrightarrow> take n (set_item h c k v) = take n h"
  by (simp add: set_item_def split: option.splits cell.splits json.splits)

lemma stamp_record_frame:
  "length h \<le> length (fst (stamp_record E name url t db a h)) \<and>
   take (length h) (fst (stamp_record E name url t db a h)) = h"
  by (simp add: stamp_record_def Let_def set_item_take
      split: option.splits cell.splits json.splits sum.splits)

lemma frame_cell_at:
  assumes "length h \<le> length h'" and "take (length h) h' = h" and "b < length h"
  shows "cell_at h' b = cell_at h b"
proof -
  from assms(3) have "take (length h) h' ! b = h' ! b" by (rule nth_take)
  with assms(2) have "h' ! b = h ! b" by simp
  with assms(1,3) show ?thesis by (simp add: cell_at_def)
qed

lemma cell_at_append_new: "cell_at (h @ [x]) (length h) = Some x"
  by (simp add: cell_at_def)

lemma cell_at_append_old: "a < length h \<Longrightarrow> cell_at (h @ xs) a = cell_at h a"
  by (simp add: cell_at_def nth_append)

lemma set_item_new:
  "set_item (h @ [Obj (JObj kvs)]) (length h) k v = h @ [Obj (JObj (AList.update k v kvs))]"
  by (simp add: set_item_def cell_at_def)

lemma stamp_record_obj:
  assumes "cell_at h a = Some (Obj (JObj kvs))"
  shows "stamp_record E name url t db a h =
     (case map_of db ''programs'' of
        None \<Rightarrow>
          (h @ [Obj (JObj (AList.update ''added_at'' (JStr (now E t))
                            (AList.update ''source_url'' (JStr url)
                               (AList.update ''university'' (JStr name) kvs))))],
           Inl KeyError)
      | Some pv \<Rightarrow>
          (case py_len pv of
             Inl e \<Rightarrow>
               (h @ [Obj (JObj (AList.update ''added_at'' (JStr (now E t))
                                 (AList.update ''source_url'' (JStr url)
                                    (AList.update ''university'' (JStr name) kvs))))],
                Inl e)
           | Inr n \<Rightarrow>
               (h @ [Obj (JObj (program_with_meta E name url t n kvs))],
                case pv of
                  JList existing \<Rightarrow>
                    Inr (AList.update ''programs''
                           (JList (existing @ [JObj (program_with_meta E name url t n kvs)])) db)
                | _ \<Rightarrow> Inl AttributeError)))"
proof -
  from assms have a: "a < length h" by (simp add: cell_at_def split: if_splits)
  have old: "cell_at (h @ [x]) a = Some (Obj (JObj kvs))" for x
    using assms a by (simp add: cell_at_append_old)
  show ?thesis
    using assms
    by (simp add: stamp_record_def Let_def set_item_new old name_or_unknown_def
        cell_at_append_new program_with_meta_def
        split: option.splits sum.splits json.splits)
qed

lemma stamp_record_success:
  assumes "stamp_record E name url t db a h = (h', Inr db')"
  shows "\<exists>kvs ex n. cell_at h a = Some (Obj (JObj kvs)) \<and>
           map_of db ''programs'' = Some (JList ex) \<and>
           h' = h @ [Obj (JObj (program_with_meta E name url t (length ex) kvs))] \<and>
           db' = AList.update ''programs''
                   (JList (ex @ [JObj (program_with_meta E name url t (length ex) kvs)])) db"
proof -
  from assms obtain kvs where kvs: "cell_at h a = Some (Obj (JObj kvs))"
    by (auto simp: stamp_record_def split: option.splits cell.splits json.splits)
  from assms stamp_record_obj [OF kvs, of E name url t db] show ?thesis
    using kvs by (auto split: option.splits sum.splits json.splits)
qed

lemma add_records_heap_frame:
  "length h \<le> length (fst (add_records_heap E name url b i t db h)) \<and>
   take (length h) (fst (add_records_heap E name url b i t db h)) = h"
proof (induction E name url b i t db h rule: add_records_heap.induct)
  case (1 E name url b i t db h)
  show ?case
  proof (cases "cell_at h b")
    case None
    then show ?thesis by (simp add: add_records_heap.simps)
  next
    case (Some x)
    show ?thesis
    proof (cases x)
      case (Obj v)
      with Some show ?thesis by (simp add: add_records_heap.simps)
    next
      case (Refs as)
      show ?thesis
      proof (cases "i < length as")
        case False
        with Some Refs show ?thesis by (simp add: add_records_heap.simps)
      next
        case True
        let ?r = "stamp_record E name url t db (as ! i) h"
        from stamp_record_frame [of h E name url t db "as ! i"]
        have f1: "length h \<le> length (fst ?r)" and f2: "take (length h) (fst ?r) = h"
          by simp_all
        show ?thesis
        proof (cases "snd ?r")
          case (Inl e)
          with Some Refs True f1 f2 show ?thesis
            by (simp add: add_records_heap.simps [of E name url b i] Let_def)
        next
          case (Inr db')
          let ?h' = "fst (add_records_heap E name url b (Suc i) (Suc t) db' (fst ?r))"
          from "1.IH" [OF Some Refs True refl Inr]
          have g1: "length (fst ?r) \<le> length ?h'" and g2: "take (length (fst ?r)) ?h' = fst ?r"
            by simp_all
          have eq: "add_records_heap E name url b i t db h =
                      add_records_heap E name url b (Suc i) (Suc t) db' (fst ?r)"
            using Some Refs True Inr
            by (simp add: add_records_heap.simps [of E name url b i] Let_def)
          from f1 g1 have l: "length h \<le> length ?h'" by simp
          have "take (length h) ?h' = take (length h) (take (length (fst ?r)) ?h')"
            using f1 by (simp add: min_def)
          with g2 f2 have "take (length h) ?h' = h" by simp
          with l eq show ?thesis by simp
        qed
      qed
    qed
  qed
qed

lemma add_records_heap_success:
  assumes "add_records_heap E name url b i t db h = (h', Inr res)"
    and "map_of db ''programs'' = Some (JList ex)"
  shows "\<exists>news. h' = h @ map Obj news \<and>
           map_of (snd res) ''programs'' = Some (JList (ex @ news))"
  using assms
proof (induction E name url b i t db h arbitrary: ex rule: add_records_heap.induct)
  case (1 E name url b i t db h)
  from "1.prems"(1) obtain as where refs: "cell_at h b = Some (Refs as)"
    by (auto simp: add_records_heap.simps [of E name url b i]
        split: option.splits cell.splits)
  show ?case
  proof (cases "i < length as")
    case False
    with "1.prems" refs have "h' = h" "snd res = db"
      by (auto simp: add_records_heap.simps [of E name url b i])
    with "1.prems"(2) show ?thesis by (intro exI [of _ "[]"]) simp
  next
    case True
    let ?r = "stamp_record E name url t db (as ! i) h"
    from "1.prems"(1) refs True obtain db1 where s: "snd ?r = Inr db1"
      by (cases "snd ?r") (auto simp: add_records_heap.simps [of E name url b i] Let_def)
    with "1.prems"(1) refs True have
      rec: "add_records_heap E name url b (Suc i) (Suc t) db1 (fst ?r) = (h', Inr res)"
      by (simp add: add_records_heap.simps [of E name url b i] Let_def)
    from s have "?r = (fst ?r, Inr db1)" by (metis prod.collapse)
    from stamp_record_success [OF this] "1.prems"(2) obtain kvs where
      h1: "fst ?r = h @ [Obj (JObj (program_with_meta E name url t (length ex) kvs))]"
      and db1: "db1 = AList.update ''programs''
                   (JList (ex @ [JObj (program_with_meta E name url t (length ex) kvs)])) db"
      by auto
    let ?v = "JObj (program_with_meta E name url t (length ex) kvs)"
    from db1 have look: "map_of db1 ''programs'' = Some (JList (ex @ [?v]))"
      by (simp add: update_conv')
    from "1.IH" [OF refs refl True refl s rec look] obtain news where
      "h' = fst ?r @ map Obj news"
      "map_of (snd res) ''programs'' = Some (JList ((ex @ [?v]) @ news))"
      by blast
    with h1 show ?thesis by (intro exI [of _ "?v # news"]) simp
  qed
qed

lemma obj_at_frame:
  assumes "length h \<le> length h'" and "take (length h) h' = h" and "cell_at h a = Some x"
  shows "obj_at h' a = obj_at h a"
proof -
  from assms(3) have "a < length h" by (simp add: cell_at_def split: if_splits)
  from frame_cell_at [OF assms(1,2) this] show ?thesis by (simp add: obj_at_def)
qed

lemma add_records_heap_refines:
  assumes "cell_at h b = Some (Refs as)"
    and "\<forall>a\<in>set as. \<exists>v. cell_at h a = Some (Obj v)"
  shows "snd (add_records_heap E name url b i t db h) =
           add_records E name url (map (obj_at h) (drop i as)) t db"
  using assms
proof (induction E name url b i t db h rule: add_records_heap.induct)
  case (1 E name url b i t db h)
  note refs = "1.prems"(1)
  show ?case
  proof (cases "i < length as")
    case False
    with refs show ?thesis
      by (simp add: add_records_heap.simps [of E name url b i])
  next
    case True
    let ?a = "as ! i"
    let ?r = "stamp_record E name url t db ?a h"
    from True have split: "drop i as = ?a # drop (Suc i) as"
      by (simp add: Cons_nth_drop_Suc)
    from True "1.prems"(2) obtain v where v: "cell_at h ?a = Some (Obj v)"
      by (meson nth_mem)
    then have ov: "obj_at h ?a = v" by (simp add: obj_at_def)
    from stamp_record_frame [of h E name url t db ?a]
    have f1: "length h \<le> length (fst ?r)" and f2: "take (length h) (fst ?r) = h"
      by simp_all
    from refs have bl: "b < length h" by (simp add: cell_at_def split: if_splits)
    have refs': "cell_at (fst ?r) b = Some (Refs as)"
      using frame_cell_at [OF f1 f2 bl] refs by simp
    have objs': "\<forall>a\<in>set as. \<exists>v. cell_at (fst ?r) a = Some (Obj v)"
    proof
      fix a assume "a \<in> set as"
      with "1.prems"(2) obtain w where w: "cell_at h a = Some (Obj w)" by blast
      then have "a < length h" by (simp add: cell_at_def split: if_splits)
      from frame_cell_at [OF f1 f2 this] w show "\<exists>v. cell_at (fst ?r) a = Some (Obj v)"
        by simp
    qed
    have same: "map (obj_at (fst ?r)) (drop (Suc i) as) = map (obj_at h) (drop (Suc i) as)"
    proof (rule map_cong [OF refl])
      fix a assume "a \<in> set (drop (Suc i) as)"
      then have "a \<in> set as" by (rule in_set_dropD)
      with "1.prems"(2) obtain w where "cell_at h a = Some (Obj w)" by blast
      from obj_at_frame [OF f1 f2 this] show "obj_at (fst ?r) a = obj_at h a" .
    qed
    have unfold: "snd (add_records_heap E name url b i t db h) =
            (case snd ?r of
               Inl e \<Rightarrow> Inl e
             | Inr db' \<Rightarrow> snd (add_records_heap E name url b (Suc i) (Suc t) db' (fst ?r)))"
      using refs True
      by (simp add: add_records_heap.simps [of E name url b i] Let_def split: sum.splits)
    have ih: "snd ?r = Inr db' \<Longrightarrow>
            snd (add_records_heap E name url b (Suc i) (Suc t) db' (fst ?r)) =
            add_records E name url (map (obj_at h) (drop (Suc i) as)) (Suc t) db'" for db'
      using "1.IH" [OF refs refl True refl _ refs' objs'] same by simp
    show ?thesis
    proof (cases v)
      case (JObj kvs)
      with v have c: "cell_at h ?a = Some (Obj (JObj kvs))" by simp
      note sr = stamp_record_obj [OF c, of E name url t db]
      show ?thesis
      proof (cases "map_of db ''programs''")
        case None
        with sr unfold split ov JObj show ?thesis by simp
      next
        case (Some pv)
        show ?thesis
        proof (cases "py_len pv")
          case (Inl e)
          with sr unfold split ov JObj Some show ?thesis by simp
        next
          case (Inr n)
          show ?thesis
          proof (cases "\<exists>existing. pv = JList existing")
            case True
            then obtain existing where pv: "pv = JList existing" by blast
            with sr Some Inr have
              "snd ?r = Inr (AList.update ''programs''
                   (JList (existing @ [JObj (program_with_meta E name url t n kvs)])) db)"
              by simp
            from ih [OF this] this unfold split ov JObj Some Inr pv show ?thesis by simp
          next
            case False
            with sr Some Inr have "snd ?r = Inl AttributeError"
              by (cases pv) auto
            moreover from False Some Inr have
              "add_records E name url (JObj kvs # map (obj_at h) (drop (Suc i) as)) t db =
               Inl AttributeError"
              by (cases pv) auto
            ultimately show ?thesis using unfold split ov JObj by simp
          qed
        qed
      qed
    next
      case (JList xs)
      with v have "?r = (h @ [Obj (JList xs)], Inl TypeError)"
        by (simp add: stamp_record_def)
      with unfold split ov JList show ?thesis by simp
    next
      case JNull
      with v have "snd ?r = Inl AttributeError" by (simp add: stamp_record_def)
      with unfold split ov JNull show ?thesis by simp
    next
      case (JBool x)
      with v have "snd ?r = Inl AttributeError" by (simp add: stamp_record_def)
      with unfold split ov JBool show ?thesis by simp
    next
      case (JInt x)
      with v have "snd ?r = Inl AttributeError" by (simp add: stamp_record_def)
      with unfold split ov JInt show ?thesis by simp
    next
      case (JFloat x)
      with v have "snd ?r = Inl AttributeError" by (simp add: stamp_record_def)
      with unfold split ov JFloat show ?thesis by simp
    next
      case (JStr x)
      with v have "snd ?r = Inl AttributeError" by (simp add: stamp_record_def)
      with unfold split ov JStr show ?thesis by simp
    qed
  qed
qed

lemma update_existing_exact:
  assumes "update_existing E url n t us = Inr (t', us')"
  shows "t' = t + length (entries_with_url url us) \<and> length us' = length us \<and>
         (\<forall>i<length us.
            (field (us ! i) ''url'' \<noteq> Some (JStr url) \<longrightarrow> us' ! i = us ! i) \<and>
            (field (us ! i) ''url'' = Some (JStr url) \<longrightarrow>
               (\<exists>kvs c. us ! i = JObj kvs \<and>
                  py_add_len E (case map_of kvs ''programs_count'' of None \<Rightarrow> JInt 0 | Some v \<Rightarrow> v) n = Inr c \<and>
                  us' ! i = JObj (AList.update ''programs_count'' c
                                    (AList.update ''scraped_at''
                                       (JStr (now E (t + length (entries_with_url url (take i us)))))
                                       kvs)))))"
  using assms
proof (induction us arbitrary: t t' us')
  case Nil
  then show ?case by (simp add: entries_with_url_def)
next
  case (Cons u us)
  from Cons.prems obtain kvs where u: "u = JObj kvs"
    by (cases u) auto
  let ?P = "\<lambda>t xs xs' i.
            (field (xs ! i) ''url'' \<noteq> Some (JStr url) \<longrightarrow> xs' ! i = xs ! i) \<and>
            (field (xs ! i) ''url'' = Some (JStr url) \<longrightarrow>
               (\<exists>kvs c. xs ! i = JObj kvs \<and>
                  py_add_len E (case map_of kvs ''programs_count'' of None \<Rightarrow> JInt 0 | Some v \<Rightarrow> v) n = Inr c \<and>
                  xs' ! i = JObj (AList.update ''programs_count'' c
                                    (AList.update ''scraped_at''
                                       (JStr (now E (t + length (entries_with_url url (take i xs)))))
                                       kvs))))"
  show ?case
  proof (cases "map_of kvs ''url'' = Some (JStr url)")
    case True
    let ?kvs1 = "AList.update ''scraped_at'' (JStr (now E t)) kvs"
    have pc: "map_of ?kvs1 ''programs_count'' = map_of kvs ''programs_count''"
      by (simp add: map_of_update_other)
    from Cons.prems u True pc obtain c rest where
      c: "py_add_len E (case map_of kvs ''programs_count'' of None \<Rightarrow> JInt 0 | Some v \<Rightarrow> v) n = Inr c"
      and run: "update_existing E url n (Suc t) us = Inr (t', rest)"
      and us': "us' = JObj (AList.update ''programs_count'' c ?kvs1) # rest"
      by (auto simp: Let_def split: sum.splits)
    from Cons.IH [OF run] have t': "t' = Suc t + length (entries_with_url url us)"
      and len: "length rest = length us" and each: "\<forall>i<length us. ?P (Suc t) us rest i"
      by simp_all
    have "\<forall>i<length (u # us). ?P t (u # us) us' i"
    proof (intro allI impI)
      fix i assume i: "i < length (u # us)"
      show "?P t (u # us) us' i"
      proof (cases i)
        case 0
        then show ?thesis using u True c us' by (auto simp: entries_with_url_def)
      next
        case (Suc j)
        with i have "j < length us" by simp
        with each have "?P (Suc t) us rest j" by blast
        then show ?thesis using Suc us' u True by (simp add: entries_with_url_def)
      qed
    qed
    then show ?thesis using len us' t' u True by (simp add: entries_with_url_def)
  next
    case False
    from Cons.prems u False obtain rest where
      run: "update_existing E url n t us = Inr (t', rest)"
      and us': "us' = u # rest"
      by (auto split: sum.splits)
    from Cons.IH [OF run] have t': "t' = t + length (entries_with_url url us)"
      and len: "length rest = length us" and each: "\<forall>i<length us. ?P t us rest i"
      by simp_all
    have "\<forall>i<length (u # us). ?P t (u # us) us' i"
    proof (intro allI impI)
      fix i assume i: "i < length (u # us)"
      show "?P t (u # us) us' i"
      proof (cases i)
        case 0
        then show ?thesis using u False us' by simp
      next
        case (Suc j)
        with i have "j < length us" by simp
        with each have "?P t us rest j" by blast
        then show ?thesis using Suc us' u False by (simp add: entries_with_url_def)
      qed
    qed
    then show ?thesis using len us' t' u False by (simp add: entries_with_url_def)
  qed
qed

lemma known_url_iff:
  "known_url url us \<longleftrightarrow>
     (\<exists>u\<in>set us. field u ''url'' = Some (JStr url)) \<or>
     (url = [] \<and> (\<exists>u\<in>set us. field u ''url'' = None))"
proof -
  have "url_or_empty u = JStr url \<longleftrightarrow>
          field u ''url'' = Some (JStr url) \<or> (url = [] \<and> field u ''url'' = None)" for u :: "'a json"
    by (cases "field u ''url''") (auto simp: url_or_empty_def)
  then show ?thesis
    unfolding known_url_def by (auto simp: image_iff) metis+
qed

lemma merge_new_url:
  assumes "merge E database ps url = Inr d"
    and "field database ''universities'' = Some (JList us)"
    and "\<not> known_url url us"
  shows "field d ''universities'' =
           Some (JList (us @ [university_info E (university_name_of url) url 0 (length ps)]))"
proof -
  from merge_Inr [OF assms(1)] obtain db where db: "database = JObj db" by blast
  with assms(2) have us: "map_of db ''universities'' = Some (JList us)" by simp
  from merge_universities_cases [OF assms(1) [unfolded db]] us assms(3)
  show ?thesis by auto
qed

section \<open>The claims\<close>

text \<open>
  C1. After a merge the collection's \<open>total_programs\<close> field equals the length of its
  \<open>programs\<close> sequence: whenever \<^verbatim>\<open>add_programs_to_database\<close> returns, the field holds
  what \<^verbatim>\<open>len\<close> gives for the \<open>programs\<close> field, and on every well-formed collection
  with a batch of dicts it does return, with \<open>programs\<close> a list of that length.
\<close>

theorem total_programs_matches_length:
  "(add_programs_to_database E st ps url = Inr d \<longrightarrow>
      (\<exists>pv n. field d ''programs'' = Some pv \<and> py_len pv = Inr n \<and>
               field d ''total_programs'' = Some (JInt (int n)))) \<and>
   (well_formed_db (snd (load_database st)) \<and> list_all is_obj ps \<longrightarrow>
      (\<exists>d' xs. add_programs_to_database E st ps url = Inr d' \<and>
               field d' ''programs'' = Some (JList xs) \<and>
               field d' ''total_programs'' = Some (JInt (int (length xs)))))"
proof (intro conjI impI)
  assume run: "add_programs_to_database E st ps url = Inr d"
  then have "merge E (snd (load_database st)) ps url = Inr d"
    by (simp add: add_programs_to_database_def)
  from merge_Inr [OF this] obtain t' db2 where um: "update_metadata E t' db2 = Inr d"
    by blast
  from update_metadata_Inr [OF um] obtain pv n where
    pv: "map_of db2 ''programs'' = Some pv" and n: "py_len pv = Inr n"
    and d: "d = JObj (AList.update ''total_programs'' (JInt (int n))
                       (AList.update ''last_updated'' (JStr (now E t')) db2))"
    by blast
  have "field d ''programs'' = Some pv"
    using d pv by (simp add: map_of_update_other)
  moreover have "field d ''total_programs'' = Some (JInt (int n))"
    using d by (simp add: map_of_update_same)
  ultimately show "\<exists>pv n. field d ''programs'' = Some pv \<and> py_len pv = Inr n \<and>
               field d ''total_programs'' = Some (JInt (int n))"
    using n by blast
next
  assume "well_formed_db (snd (load_database st)) \<and> list_all is_obj ps"
  then have "well_formed_db (snd (load_database st))" "list_all is_obj ps" by simp_all
  from merge_total [OF this, of E url]
  show "\<exists>d' xs. add_programs_to_database E st ps url = Inr d' \<and>
               field d' ''programs'' = Some (JList xs) \<and>
               field d' ''total_programs'' = Some (JInt (int (length xs)))"
    unfolding add_programs_to_database_def by blast
qed

theorem total_programs_matches_length_witness:
  "add_programs_to_database sample_env (Loaded sample_db) [sample_record]
     ''https://mit.edu/summer'' = Inr sample_merged \<and>
   well_formed_db (snd (load_database (Loaded sample_db))) \<and>
   list_all is_obj [sample_record] \<and>
   (\<exists>pv n. field sample_merged ''programs'' = Some pv \<and> py_len pv = Inr n \<and>
            field sample_merged ''total_programs'' = Some (JInt (int n))) \<and>
   (\<exists>d' xs. add_programs_to_database sample_env (Loaded sample_db) [sample_record]
               ''https://mit.edu/summer'' = Inr d' \<and>
             field d' ''programs'' = Some (JList xs) \<and>
             field d' ''total_programs'' = Some (JInt (int (length xs))))"
proof -
  have run: "add_programs_to_database sample_env (Loaded sample_db) [sample_record]
     ''https://mit.edu/summer'' = Inr sample_merged"
    by code_simp
  have wf: "well_formed_db (snd (load_database (Loaded sample_db)))"
    by (simp add: well_formed_db_def sample_db_def)
  have objs: "list_all is_obj [sample_record]"
    by (simp add: sample_record_def)
  note both = total_programs_matches_length [of sample_env "Loaded sample_db" "[sample_record]"
      "''https://mit.edu/summer''" sample_merged]
  from both run have first: "\<exists>pv n. field sample_merged ''programs'' = Some pv \<and> py_len pv = Inr n \<and>
            field sample_merged ''total_programs'' = Some (JInt (int n))"
    by (rule conjunct1 [THEN mp])
  from both wf objs have second: "\<exists>d' xs. add_programs_to_database sample_env (Loaded sample_db)
               [sample_record] ''https://mit.edu/summer'' = Inr d' \<and>
             field d' ''programs'' = Some (JList xs) \<and>
             field d' ''total_programs'' = Some (JInt (int (length xs)))"
    by blast
  show ?thesis
    by (rule conjI [OF run conjI [OF wf conjI [OF objs conjI [OF first second]]]])
qed

text \<open>
  C2 (as amended). When \<^verbatim>\<open>json.loads\<close> rejects the cleaned completion text with a
  \<^verbatim>\<open>JSONDecodeError\<close>, the extractor shows an error notice and the text it tried to
  parse, and returns the empty list: the value it also returns for a completion that
  parses to the empty array, from which the failure differs by the notices only. The
  extractor returns \<open>None\<close> exactly when the credential is missing, when the API call
  raises or gives no text, or when \<^verbatim>\<open>json.loads\<close> raises another exception.
\<close>

theorem parse_failure_returns_empty:
  "(api_key \<noteq> [] \<and> json_loads (clean_response content) = JSONDecodeError \<longrightarrow>
      extract_programs_with_openai json_loads api_key (Completion content) =
        ([StError ''Failed to parse AI response as JSON'', StCode (clean_response content)],
         Some [])) \<and>
   (api_key \<noteq> [] \<and> json_loads (clean_response content2) = Loads (JList []) \<longrightarrow>
      extract_programs_with_openai json_loads api_key (Completion content2) = ([], Some [])) \<and>
   ((snd (extract_programs_with_openai json_loads api_key outcome) = None) =
      (api_key = [] \<or> (\<exists>msg. outcome = ApiRaises msg) \<or> outcome = NoContent \<or>
       (\<exists>content3 msg. outcome = Completion content3 \<and>
           json_loads (clean_response content3) = LoadsRaises msg)))"
proof -
  have p1: "api_key \<noteq> [] \<and> json_loads (clean_response content) = JSONDecodeError \<longrightarrow>
      extract_programs_with_openai json_loads api_key (Completion content) =
        ([StError ''Failed to parse AI response as JSON'', StCode (clean_response content)],
         Some [])"
    by (simp add: extract_programs_with_openai_def interpret_loads_def Let_def)
  have p2: "api_key \<noteq> [] \<and> json_loads (clean_response content2) = Loads (JList []) \<longrightarrow>
      extract_programs_with_openai json_loads api_key (Completion content2) = ([], Some [])"
    by (simp add: extract_programs_with_openai_def interpret_loads_def Let_def)
  have p3: "(snd (extract_programs_with_openai json_loads api_key outcome) = None) =
      (api_key = [] \<or> (\<exists>msg. outcome = ApiRaises msg) \<or> outcome = NoContent \<or>
       (\<exists>content3 msg. outcome = Completion content3 \<and>
           json_loads (clean_response content3) = LoadsRaises msg))"
  proof (cases "api_key = []")
    case True
    then show ?thesis by (simp add: extract_programs_with_openai_def)
  next
    case False
    show ?thesis
    proof (cases outcome)
      case (ApiRaises msg)
      with False show ?thesis by (simp add: extract_programs_with_openai_def)
    next
      case NoContent
      with False show ?thesis by (simp add: extract_programs_with_openai_def)
    next
      case (Completion c)
      with False show ?thesis
        by (cases "json_loads (clean_response c)")
           (simp_all add: extract_programs_with_openai_def interpret_loads_def Let_def)
    qed
  qed
  show ?thesis
    by (rule conjI [OF p1 conjI [OF p2 p3]])
qed

theorem parse_failure_returns_empty_witness:
  "(''key'' \<noteq> [] \<and> sample_loads (clean_response ''not json'') = JSONDecodeError) \<and>
   (''key'' \<noteq> [] \<and> sample_loads (clean_response ''[]'') = Loads (JList [])) \<and>
   extract_programs_with_openai sample_loads ''key'' (Completion ''not json'') =
     ([StError ''Failed to parse AI response as JSON'', StCode (clean_response ''not json'')],
      Some []) \<and>
   extract_programs_with_openai sample_loads ''key'' (Completion ''[]'') = ([], Some []) \<and>
   snd (extract_programs_with_openai sample_loads ''key''
          (Completion (replicate 1000 CHR ''[''))) = None"
proof -
  have h1: "''key'' \<noteq> [] \<and> sample_loads (clean_response ''not json'') = JSONDecodeError"
    by code_simp
  have h2: "''key'' \<noteq> [] \<and> sample_loads (clean_response ''[]'') = Loads (JList [])"
    by code_simp
  have h3: "sample_loads (clean_response (replicate 1000 CHR ''['')) =
              LoadsRaises ''maximum recursion depth exceeded while decoding a JSON array''"
    by code_simp
  note all = parse_failure_returns_empty [of "''key''" sample_loads "''not json''" "''[]''"
      "Completion (replicate 1000 CHR ''['')"]
  from all [THEN conjunct2, THEN conjunct2] h3
  have c3: "snd (extract_programs_with_openai sample_loads ''key''
          (Completion (replicate 1000 CHR ''[''))) = None"
    by blast
  show ?thesis
    by (rule conjI [OF h1 conjI [OF h2 conjI [OF all [THEN conjunct1, THEN mp, OF h1]
          conjI [OF all [THEN conjunct2, THEN conjunct1, THEN mp, OF h2] c3]]]])
qed

text \<open>
  C2 as first stated, that the failure can be told from zero programs at the
  return value, fails: both calls return the empty list.
\<close>

theorem parse_failure_counterexample:
  "sample_loads (clean_response ''not json'') = JSONDecodeError \<and>
   sample_loads (clean_response ''[]'') = Loads (JList []) \<and>
   snd (extract_programs_with_openai sample_loads ''key'' (Completion ''not json'')) = Some [] \<and>
   snd (extract_programs_with_openai sample_loads ''key'' (Completion ''[]'')) = Some []"
  by code_simp

text \<open>
  C3. The merge only appends to \<open>programs\<close>: the records stored before the merge are a
  prefix of the sequence after it, each at its old position and unchanged, followed by
  one new record per record of the batch.
\<close>

theorem merge_appends_programs:
  assumes "add_programs_to_database E st ps url = Inr d"
    and "field (snd (load_database st)) ''programs'' = Some (JList ex)"
  shows "\<exists>news. field d ''programs'' = Some (JList (ex @ news)) \<and> length news = length ps \<and>
           (\<forall>i<length ex. (ex @ news) ! i = ex ! i)"
proof -
  from assms(1) have run: "merge E (snd (load_database st)) ps url = Inr d"
    by (simp add: add_programs_to_database_def)
  from merge_Inr [OF run] obtain db where db: "snd (load_database st) = JObj db" by blast
  with assms(2) have ex: "map_of db ''programs'' = Some (JList ex)" by simp
  from merge_programs [OF run [unfolded db] ex] obtain t us' news where
    len: "length news = length ps"
    and d: "d = JObj (AList.update ''total_programs'' (JInt (int (length ex + length ps)))
                  (AList.update ''last_updated'' (JStr (now E (t + length ps)))
                     (AList.update ''programs'' (JList (ex @ news))
                        (AList.update ''universities'' (JList us') db))))"
    by blast
  have "field d ''programs'' = Some (JList (ex @ news))"
    using d by (simp add: map_of_update_other map_of_update_same)
  moreover have "\<forall>i<length ex. (ex @ news) ! i = ex ! i"
    by (simp add: nth_append)
  ultimately show ?thesis using len by blast
qed

theorem merge_appends_programs_witness:
  "add_programs_to_database sample_env (Loaded sample_db) [sample_record]
     ''https://mit.edu/summer'' = Inr sample_merged \<and>
   field (snd (load_database (Loaded sample_db))) ''programs'' =
     Some (JList [JObj [(''name'', JStr ''Old Camp''), (''id'', JStr ''a.edu_Old Camp_0'')]]) \<and>
   (\<exists>news. field sample_merged ''programs'' =
              Some (JList ([JObj [(''name'', JStr ''Old Camp''),
                                  (''id'', JStr ''a.edu_Old Camp_0'')]] @ news)) \<and>
      length news = length [sample_record] \<and>
      (\<forall>i<length [JObj [(''name'', JStr ''Old Camp''),
                         (''id'', JStr ''a.edu_Old Camp_0'') :: string \<times> unit json]].
         ([JObj [(''name'', JStr ''Old Camp''), (''id'', JStr ''a.edu_Old Camp_0'')]] @ news) ! i =
         [JObj [(''name'', JStr ''Old Camp''), (''id'', JStr ''a.edu_Old Camp_0'')]] ! i))"
proof -
  have run: "add_programs_to_database sample_env (Loaded sample_db) [sample_record]
     ''https://mit.edu/summer'' = Inr sample_merged"
    by code_simp
  have before: "field (snd (load_database (Loaded sample_db))) ''programs'' =
     Some (JList [JObj [(''name'', JStr ''Old Camp''), (''id'', JStr ''a.edu_Old Camp_0'')]])"
    by (simp add: sample_db_def)
  show ?thesis
    by (rule conjI [OF run conjI [OF before merge_appends_programs [OF run before]]])
qed

text \<open>
  C4 (as amended). Merging the empty batch leaves \<open>programs\<close> as it was and writes three
  fields only: \<open>last_updated\<close>, \<open>total_programs\<close> (the length of \<open>programs\<close>) and
  \<open>universities\<close>. The url counts as known when it is the url of an entry, an entry
  without a url field counting as one with the empty url. When the url is not known, one
  entry with \<open>programs_count = 0\<close> is appended and the earlier entries stay. When it is
  known, no entry is appended, the entries with another url stay, and each entry with
  that url gets \<open>scraped_at\<close> overwritten with the time of the clock's next call and
  \<open>programs_count\<close> stored again as the count plus 0 (an integer count keeps its value);
  its other fields stay.
\<close>

theorem empty_merge_frame:
  assumes "add_programs_to_database E st [] url = Inr d"
  shows "\<exists>db us us' pv n.
           snd (load_database st) = JObj db \<and>
           map_of db ''universities'' = Some (JList us) \<and>
           map_of db ''programs'' = Some pv \<and> py_len pv = Inr n \<and>
           d = JObj (AList.update ''total_programs'' (JInt (int n))
                  (AList.update ''last_updated''
                     (JStr (now E (if known_url url us
                                   then length (entries_with_url url us) else 1)))
                     (AList.update ''universities'' (JList us') db))) \<and>
           field d ''programs'' = Some pv \<and>
           (known_url url us \<longleftrightarrow>
              (\<exists>u\<in>set us. field u ''url'' = Some (JStr url)) \<or>
              (url = [] \<and> (\<exists>u\<in>set us. field u ''url'' = None))) \<and>
           (if known_url url us
            then length us' = length us \<and>
                 (\<forall>i<length us.
                    (field (us ! i) ''url'' \<noteq> Some (JStr url) \<longrightarrow> us' ! i = us ! i) \<and>
                    (field (us ! i) ''url'' = Some (JStr url) \<longrightarrow>
                       (\<exists>kvs c. us ! i = JObj kvs \<and>
                          py_add_len E (case map_of kvs ''programs_count'' of
                                          None \<Rightarrow> JInt 0 | Some v \<Rightarrow> v) 0 = Inr c \<and>
                          us' ! i =
                            JObj (AList.update ''programs_count'' c
                                    (AList.update ''scraped_at''
                                       (JStr (now E (length (entries_with_url url (take i us)))))
                                       kvs))) \<and>
                       field (us' ! i) ''scraped_at'' =
                         Some (JStr (now E (length (entries_with_url url (take i us)))))) \<and>
                    (\<forall>k. k \<noteq> ''scraped_at'' \<longrightarrow> k \<noteq> ''programs_count'' \<longrightarrow>
                       field (us' ! i) k = field (us ! i) k) \<and>
                    (\<forall>a. field (us ! i) ''programs_count'' = Some (JInt a) \<longrightarrow>
                       field (us' ! i) ''programs_count'' = Some (JInt a)))
            else us' = us @ [JObj [(''name'', JStr (university_name_of url)),
                                   (''url'', JStr url),
                                   (''scraped_at'', JStr (now E 0)),
                                   (''programs_count'', JInt 0)]])"
proof -
  let ?name = "university_name_of url"
  from assms have run: "merge E (snd (load_database st)) [] url = Inr d"
    by (simp add: add_programs_to_database_def)
  from merge_Inr [OF run] obtain db t db1 t' db2 where
    db: "snd (load_database st) = JObj db"
    and uu: "update_universities E ?name url (length ([] :: 'a json list)) db = Inr (t, db1)"
    and ar: "add_records E ?name url [] t db1 = Inr (t', db2)"
    and um: "update_metadata E t' db2 = Inr d"
    by blast
  from ar have same: "db2 = db1" "t' = t" by simp_all
  from update_universities_shape [OF uu] obtain us us'' where
    us: "map_of db ''universities'' = Some (JList us)"
    and db1: "db1 = AList.update ''universities'' (JList us'') db" by auto
  let ?tick = "if known_url url us then length (entries_with_url url us) else 1"
  have branch: "t = ?tick \<and>
        (if known_url url us
         then update_existing E url 0 0 us = Inr (t, us'')
         else us'' = us @ [university_info E ?name url 0 0])"
  proof (cases "known_url url us")
    case True
    from update_universities_known [OF uu us True] obtain us3 where
      ue: "update_existing E url (length ([] :: 'a json list)) 0 us = Inr (t, us3)"
      and eq: "db1 = AList.update ''universities'' (JList us3) db"
      by blast
    from eq db1 have "JList us'' = JList us3" by (metis update_eqD)
    with ue have ue': "update_existing E url 0 0 us = Inr (t, us'')" by simp
    from update_existing_exact [OF ue'] True ue' show ?thesis by simp
  next
    case False
    from update_universities_new [OF uu us False] db1 have
      "t = Suc 0" and "AList.update ''universities'' (JList us'') db =
         AList.update ''universities'' (JList (us @ [university_info E ?name url 0 0])) db"
      by simp_all
    then have "t = Suc 0" and "JList us'' = JList (us @ [university_info E ?name url 0 0])"
      by (simp, metis update_eqD)
    with False show ?thesis by simp
  qed
  from update_metadata_Inr [OF um] same obtain pv n where
    pv1: "map_of db1 ''programs'' = Some pv" and n: "py_len pv = Inr n"
    and d: "d = JObj (AList.update ''total_programs'' (JInt (int n))
                       (AList.update ''last_updated'' (JStr (now E t)) db1))"
    by auto
  from pv1 db1 have pv: "map_of db ''programs'' = Some pv"
    by (simp add: map_of_update_other)
  have dp: "field d ''programs'' = Some pv"
    using d pv1 by (simp add: map_of_update_other)
  have d': "d = JObj (AList.update ''total_programs'' (JInt (int n))
                  (AList.update ''last_updated'' (JStr (now E ?tick))
                     (AList.update ''universities'' (JList us'') db)))"
    using d db1 branch by simp
  have entries: "if known_url url us
            then length us'' = length us \<and>
                 (\<forall>i<length us.
                    (field (us ! i) ''url'' \<noteq> Some (JStr url) \<longrightarrow> us'' ! i = us ! i) \<and>
                    (field (us ! i) ''url'' = Some (JStr url) \<longrightarrow>
                       (\<exists>kvs c. us ! i = JObj kvs \<and>
                          py_add_len E (case map_of kvs ''programs_count'' of
                                          None \<Rightarrow> JInt 0 | Some v \<Rightarrow> v) 0 = Inr c \<and>
                          us'' ! i =
                            JObj (AList.update ''programs_count'' c
                                    (AList.update ''scraped_at''
                                       (JStr (now E (length (entries_with_url url (take i us)))))
                                       kvs))) \<and>
                       field (us'' ! i) ''scraped_at'' =
                         Some (JStr (now E (length (entries_with_url url (take i us)))))) \<and>
                    (\<forall>k. k \<noteq> ''scraped_at'' \<longrightarrow> k \<noteq> ''programs_count'' \<longrightarrow>
                       field (us'' ! i) k = field (us ! i) k) \<and>
                    (\<forall>a. field (us ! i) ''programs_count'' = Some (JInt a) \<longrightarrow>
                       field (us'' ! i) ''programs_count'' = Some (JInt a)))
            else us'' = us @ [JObj [(''name'', JStr ?name),
                                   (''url'', JStr url),
                                   (''scraped_at'', JStr (now E 0)),
                                   (''programs_count'', JInt 0)]]"
  proof (cases "known_url url us")
    case False
    with branch show ?thesis by (simp add: university_info_def)
  next
    case True
    with branch have ue: "update_existing E url 0 0 us = Inr (t, us'')" by simp
    from update_existing_exact [OF ue] have len: "length us'' = length us"
      and each: "\<forall>i<length us.
            (field (us ! i) ''url'' \<noteq> Some (JStr url) \<longrightarrow> us'' ! i = us ! i) \<and>
            (field (us ! i) ''url'' = Some (JStr url) \<longrightarrow>
               (\<exists>kvs c. us ! i = JObj kvs \<and>
                  py_add_len E (case map_of kvs ''programs_count'' of None \<Rightarrow> JInt 0 | Some v \<Rightarrow> v) 0 = Inr c \<and>
                  us'' ! i = JObj (AList.update ''programs_count'' c
                                    (AList.update ''scraped_at''
                                       (JStr (now E (length (entries_with_url url (take i us)))))
                                       kvs))))"
      by simp_all
    have "(field (us ! i) ''url'' \<noteq> Some (JStr url) \<longrightarrow> us'' ! i = us ! i) \<and>
          (field (us ! i) ''url'' = Some (JStr url) \<longrightarrow>
             (\<exists>kvs c. us ! i = JObj kvs \<and>
                py_add_len E (case map_of kvs ''programs_count'' of
                                None \<Rightarrow> JInt 0 | Some v \<Rightarrow> v) 0 = Inr c \<and>
                us'' ! i =
                  JObj (AList.update ''programs_count'' c
                          (AList.update ''scraped_at''
                             (JStr (now E (length (entries_with_url url (take i us)))))
                             kvs))) \<and>
             field (us'' ! i) ''scraped_at'' =
               Some (JStr (now E (length (entries_with_url url (take i us)))))) \<and>
          (\<forall>k. k \<noteq> ''scraped_at'' \<longrightarrow> k \<noteq> ''programs_count'' \<longrightarrow>
                       field (us'' ! i) k = field (us ! i) k) \<and>
          (\<forall>a. field (us ! i) ''programs_count'' = Some (JInt a) \<longrightarrow>
                       field (us'' ! i) ''programs_count'' = Some (JInt a))"
      if i: "i < length us" for i
    proof (cases "field (us ! i) ''url'' = Some (JStr url)")
      case False
      with each i show ?thesis by simp
    next
      case match: True
      from each i have "field (us ! i) ''url'' = Some (JStr url) \<longrightarrow>
               (\<exists>kvs c. us ! i = JObj kvs \<and>
                  py_add_len E (case map_of kvs ''programs_count'' of None \<Rightarrow> JInt 0 | Some v \<Rightarrow> v) 0 = Inr c \<and>
                  us'' ! i = JObj (AList.update ''programs_count'' c
                                    (AList.update ''scraped_at''
                                       (JStr (now E (length (entries_with_url url (take i us)))))
                                       kvs)))"
        by blast
      with match obtain kvs c where kvs: "us ! i = JObj kvs"
        and c: "py_add_len E (case map_of kvs ''programs_count'' of None \<Rightarrow> JInt 0 | Some v \<Rightarrow> v) 0 = Inr c"
        and new: "us'' ! i = JObj (AList.update ''programs_count'' c
                                    (AList.update ''scraped_at''
                                       (JStr (now E (length (entries_with_url url (take i us)))))
                                       kvs))"
        by blast
      have sc: "field (us'' ! i) ''scraped_at'' =
               Some (JStr (now E (length (entries_with_url url (take i us)))))"
        using new by (simp add: map_of_update_other map_of_update_same)
      have other: "\<forall>k. k \<noteq> ''scraped_at'' \<longrightarrow> k \<noteq> ''programs_count'' \<longrightarrow>
                       field (us'' ! i) k = field (us ! i) k"
        using kvs new by (simp add: map_of_update_other)
      have cnt: "\<forall>a. field (us ! i) ''programs_count'' = Some (JInt a) \<longrightarrow>
                       field (us'' ! i) ''programs_count'' = Some (JInt a)"
        using kvs new c by (auto simp: map_of_update_same)
      from kvs c new have ex: "\<exists>kvs c. us ! i = JObj kvs \<and>
                py_add_len E (case map_of kvs ''programs_count'' of
                                None \<Rightarrow> JInt 0 | Some v \<Rightarrow> v) 0 = Inr c \<and>
                us'' ! i =
                  JObj (AList.update ''programs_count'' c
                          (AList.update ''scraped_at''
                             (JStr (now E (length (entries_with_url url (take i us)))))
                             kvs))"
        by blast
      from match ex sc other cnt show ?thesis by blast
    qed
    with len True show ?thesis by simp
  qed
  note iff = known_url_iff [of url us]
  show ?thesis
    by (intro exI [of _ db] exI [of _ us] exI [of _ us''] exI [of _ pv] exI [of _ n] conjI)
       (rule db us pv n d' dp iff entries)+
qed

theorem empty_merge_frame_witness:
  "add_programs_to_database sample_env (Loaded sample_db) [] ''https://a.edu'' =
     Inr sample_rescanned \<and>
   (\<exists>db us us' pv n.
           snd (load_database (Loaded sample_db)) = JObj db \<and>
           map_of db ''universities'' = Some (JList us) \<and>
           map_of db ''programs'' = Some pv \<and> py_len pv = Inr n \<and>
           sample_rescanned = JObj (AList.update ''total_programs'' (JInt (int n))
                  (AList.update ''last_updated''
                     (JStr (now sample_env (if known_url ''https://a.edu'' us
                                   then length (entries_with_url ''https://a.edu'' us) else 1)))
                     (AList.update ''universities'' (JList us') db))) \<and>
           field sample_rescanned ''programs'' = Some pv \<and>
           (known_url ''https://a.edu'' us \<longleftrightarrow>
              (\<exists>u\<in>set us. field u ''url'' = Some (JStr ''https://a.edu'')) \<or>
              (''https://a.edu'' = [] \<and> (\<exists>u\<in>set us. field u ''url'' = None))) \<and>
           (if known_url ''https://a.edu'' us
            then length us' = length us \<and>
                 (\<forall>i<length us.
                    (field (us ! i) ''url'' \<noteq> Some (JStr ''https://a.edu'') \<longrightarrow> us' ! i = us ! i) \<and>
                    (field (us ! i) ''url'' = Some (JStr ''https://a.edu'') \<longrightarrow>
                       (\<exists>kvs c. us ! i = JObj kvs \<and>
                          py_add_len sample_env (case map_of kvs ''programs_count'' of
                                          None \<Rightarrow> JInt 0 | Some v \<Rightarrow> v) 0 = Inr c \<and>
                          us' ! i =
                            JObj (AList.update ''programs_count'' c
                                    (AList.update ''scraped_at''
                                       (JStr (now sample_env (length (entries_with_url ''https://a.edu'' (take i us)))))
                                       kvs))) \<and>
                       field (us' ! i) ''scraped_at'' =
                         Some (JStr (now sample_env (length (entries_with_url ''https://a.edu'' (take i us)))))) \<and>
                    (\<forall>k. k \<noteq> ''scraped_at'' \<longrightarrow> k \<noteq> ''programs_count'' \<longrightarrow>
                       field (us' ! i) k = field (us ! i) k) \<and>
                    (\<forall>a. field (us ! i) ''programs_count'' = Some (JInt a) \<longrightarrow>
                       field (us' ! i) ''programs_count'' = Some (JInt a)))
            else us' = us @ [JObj [(''name'', JStr (university_name_of ''https://a.edu'')),
                                   (''url'', JStr ''https://a.edu''),
                                   (''scraped_at'', JStr (now sample_env 0)),
                                   (''programs_count'', JInt 0)]]))"
proof -
  have run: "add_programs_to_database sample_env (Loaded sample_db) [] ''https://a.edu'' =
     Inr sample_rescanned"
    by code_simp
  show ?thesis
    by (rule conjI [OF run empty_merge_frame [OF run]])
qed

text \<open>
  C4 as first stated, that the earlier university entries are unchanged, fails on
  a known url: the entry's \<open>scraped_at\<close> is overwritten.
\<close>

theorem empty_merge_counterexample:
  "add_programs_to_database sample_env (Loaded sample_db) [] ''https://a.edu'' =
     Inr sample_rescanned \<and>
   field sample_db ''universities'' =
     Some (JList [JObj [(''name'', JStr ''a.edu''), (''url'', JStr ''https://a.edu''),
                        (''scraped_at'', JStr ''T''), (''programs_count'', JInt 1)]]) \<and>
   field sample_rescanned ''universities'' =
     Some (JList [JObj [(''name'', JStr ''a.edu''), (''url'', JStr ''https://a.edu''),
                        (''scraped_at'', JStr ''T0''), (''programs_count'', JInt 1)]]) \<and>
   field sample_rescanned ''universities'' \<noteq> field sample_db ''universities''"
proof -
  have run: "add_programs_to_database sample_env (Loaded sample_db) [] ''https://a.edu'' =
     Inr sample_rescanned"
    by code_simp
  show ?thesis using run
    by (simp add: sample_db_def sample_rescanned_def)
qed

text \<open>
  C5. The record appended at position \<open>length ex + i\<close> gets the id made of the display
  name, the record's \<open>name\<close> field (or \<open>unknown\<close> when it has none) and the length of
  \<open>programs\<close> just before it is appended; and merging the one record named Code Camp
  into the empty collection under \<^verbatim>\<open>https://mit.edu/summer\<close> gives one record with id
  \<^verbatim>\<open>mit.edu_Code Camp_0\<close>, one university entry with count 1, and \<open>total_programs = 1\<close>.
\<close>

theorem appended_record_id:
  "(add_programs_to_database E st ps url = Inr d \<and> i < length ps \<longrightarrow>
      (\<exists>ex xs kvs. field (snd (load_database st)) ''programs'' = Some (JList ex) \<and>
         field d ''programs'' = Some (JList xs) \<and>
         length xs = length ex + length ps \<and>
         ps ! i = JObj kvs \<and>
         field (xs ! (length ex + i)) ''id'' =
           Some (JStr (university_name_of url @ ''_'' @
                       format_value E (case map_of kvs ''name'' of
                                         None \<Rightarrow> JStr ''unknown'' | Some v \<Rightarrow> v) @
                       ''_'' @ string_of_nat (length ex + i))))) \<and>
   add_programs_to_database E NoFile [JObj [(''name'', JStr ''Code Camp'')]] ''https://mit.edu/summer'' =
     Inr (JObj [(''programs'',
                 JList [JObj [(''name'', JStr ''Code Camp''), (''university'', JStr ''mit.edu''),
                              (''source_url'', JStr ''https://mit.edu/summer''),
                              (''added_at'', JStr (now E 1)),
                              (''id'', JStr ''mit.edu_Code Camp_0'')]]),
                (''universities'',
                 JList [JObj [(''name'', JStr ''mit.edu''), (''url'', JStr ''https://mit.edu/summer''),
                              (''scraped_at'', JStr (now E 0)), (''programs_count'', JInt 1)]]),
                (''last_updated'', JStr (now E 2)),
                (''total_programs'', JInt 1)])"
proof (intro conjI impI)
  assume asm: "add_programs_to_database E st ps url = Inr d \<and> i < length ps"
  let ?name = "university_name_of url"
  from asm have run: "merge E (snd (load_database st)) ps url = Inr d" and i: "i < length ps"
    by (simp_all add: add_programs_to_database_def)
  from merge_Inr [OF run] obtain db t db1 t' db2 where
    db: "snd (load_database st) = JObj db"
    and uu: "update_universities E ?name url (length ps) db = Inr (t, db1)"
    and ar: "add_records E ?name url ps t db1 = Inr (t', db2)"
    by blast
  from update_universities_shape [OF uu] obtain us' where
    db1: "db1 = AList.update ''universities'' (JList us') db" by blast
  from i obtain p ps' where "ps = p # ps'" by (cases ps) auto
  with ar add_records_needs_list obtain ex where "map_of db1 ''programs'' = Some (JList ex)"
    by blast
  with db1 have ex: "map_of db ''programs'' = Some (JList ex)"
    by (simp add: map_of_update_other)
  from merge_programs [OF run [unfolded db] ex] obtain t0 us0 news where
    len: "length news = length ps"
    and each: "\<forall>i<length ps. \<exists>kvs. ps ! i = JObj kvs \<and>
               news ! i = JObj (program_with_meta E ?name url (t0 + i) (length ex + i) kvs)"
    and d: "d = JObj (AList.update ''total_programs'' (JInt (int (length ex + length ps)))
                  (AList.update ''last_updated'' (JStr (now E (t0 + length ps)))
                     (AList.update ''programs'' (JList (ex @ news))
                        (AList.update ''universities'' (JList us0) db))))"
    by blast
  from each i obtain kvs where kvs: "ps ! i = JObj kvs"
    and new: "news ! i = JObj (program_with_meta E ?name url (t0 + i) (length ex + i) kvs)"
    by blast
  have progs: "field d ''programs'' = Some (JList (ex @ news))"
    using d by (simp add: map_of_update_other map_of_update_same)
  have "(ex @ news) ! (length ex + i) = news ! i"
    by (simp add: nth_append)
  with new have "field ((ex @ news) ! (length ex + i)) ''id'' =
           Some (JStr (?name @ ''_'' @
                       format_value E (case map_of kvs ''name'' of
                                         None \<Rightarrow> JStr ''unknown'' | Some v \<Rightarrow> v) @
                       ''_'' @ string_of_nat (length ex + i)))"
    by (simp add: program_with_meta_def map_of_update_same)
  with db ex progs len kvs
  show "\<exists>ex xs kvs. field (snd (load_database st)) ''programs'' = Some (JList ex) \<and>
         field d ''programs'' = Some (JList xs) \<and>
         length xs = length ex + length ps \<and>
         ps ! i = JObj kvs \<and>
         field (xs ! (length ex + i)) ''id'' =
           Some (JStr (?name @ ''_'' @
                       format_value E (case map_of kvs ''name'' of
                                         None \<Rightarrow> JStr ''unknown'' | Some v \<Rightarrow> v) @
                       ''_'' @ string_of_nat (length ex + i)))"
    by (intro exI [of _ ex] exI [of _ "ex @ news"] exI [of _ kvs]) simp
next
  show "add_programs_to_database E NoFile [JObj [(''name'', JStr ''Code Camp'')]] ''https://mit.edu/summer'' =
     Inr (JObj [(''programs'',
                 JList [JObj [(''name'', JStr ''Code Camp''), (''university'', JStr ''mit.edu''),
                              (''source_url'', JStr ''https://mit.edu/summer''),
                              (''added_at'', JStr (now E 1)),
                              (''id'', JStr ''mit.edu_Code Camp_0'')]]),
                (''universities'',
                 JList [JObj [(''name'', JStr ''mit.edu''), (''url'', JStr ''https://mit.edu/summer''),
                              (''scraped_at'', JStr (now E 0)), (''programs_count'', JInt 1)]]),
                (''last_updated'', JStr (now E 2)),
                (''total_programs'', JInt 1)])"
    by (rule empty_merge_example)
qed

theorem appended_record_id_witness:
  "(add_programs_to_database sample_env (Loaded sample_db) [sample_record]
      ''https://mit.edu/summer'' = Inr sample_merged \<and> 0 < length [sample_record]) \<and>
   (\<exists>ex xs kvs. field (snd (load_database (Loaded sample_db))) ''programs'' = Some (JList ex) \<and>
         field sample_merged ''programs'' = Some (JList xs) \<and>
         length xs = length ex + length [sample_record] \<and>
         [sample_record] ! 0 = JObj kvs \<and>
         field (xs ! (length ex + 0)) ''id'' =
           Some (JStr (university_name_of ''https://mit.edu/summer'' @ ''_'' @
                       format_value sample_env (case map_of kvs ''name'' of
                                         None \<Rightarrow> JStr ''unknown'' | Some v \<Rightarrow> v) @
                       ''_'' @ string_of_nat (length ex + 0))))"
proof -
  have run: "add_programs_to_database sample_env (Loaded sample_db) [sample_record]
      ''https://mit.edu/summer'' = Inr sample_merged \<and> 0 < length [sample_record]"
    by (rule conjI, code_simp, simp)
  note general = appended_record_id [of sample_env "Loaded sample_db" "[sample_record]"
      "''https://mit.edu/summer''" sample_merged 0, THEN conjunct1, THEN mp, OF run]
  show ?thesis
    by (rule conjI [OF run general])
qed

text \<open>
  C6 (as amended). The display name is the url with every occurrence of \<^verbatim>\<open>https://\<close> and
  then of \<^verbatim>\<open>http://\<close> removed, cut at the first slash; for a url in which a scheme occurs
  at most once, as its leading prefix, this is the url with that prefix stripped and
  cut at the first slash of the remainder.
\<close>

theorem display_name_single_scheme:
  assumes "\<not> sublist ''https://'' rest" and "\<not> sublist ''http://'' rest"
    and "p = [] \<or> p = ''http://'' \<or> p = ''https://''"
  shows "university_name_of (p @ rest) = takeWhile (\<lambda>c. c \<noteq> CHR ''/'') rest \<and>
         university_name_of (p @ rest) = spec_display_name (p @ rest) \<and>
         university_name_of url =
           takeWhile (\<lambda>c. c \<noteq> CHR ''/'')
             (replace_py ''http://'' [] (replace_py ''https://'' [] url))"
proof -
  have np1: "\<not> prefix ''https://'' rest" and np2: "\<not> prefix ''http://'' rest"
    using assms(1,2) by auto
  have two: "university_name_of (p @ rest) = takeWhile (\<lambda>c. c \<noteq> CHR ''/'') rest \<and>
         university_name_of (p @ rest) = spec_display_name (p @ rest)"
  proof -
    from assms(3) consider "p = []" | "p = ''http://''" | "p = ''https://''" by blast
    then show ?thesis
    proof cases
      case 1
      then show ?thesis
        using assms(1,2) np1 np2
        by (simp add: university_name_of_eq spec_display_name_def replace_py_absent)
    next
      case 2
      have a: "replace_py ''https://'' [] (''http://'' @ rest) = ''http://'' @ rest"
        by (rule replace_py_absent) (use assms(1) in \<open>simp_all add: sublist_Cons_right\<close>)
      have b: "replace_py ''http://'' [] (''http://'' @ rest) = rest"
        using replace_py_leading [of "''http://''" "[]" rest] assms(2)
        by (simp add: replace_py_absent)
      show ?thesis
        unfolding 2 university_name_of_eq a b
        by (simp add: spec_display_name_def)
    next
      case 3
      have a: "replace_py ''https://'' [] (''https://'' @ rest) = rest"
        using replace_py_leading [of "''https://''" "[]" rest] assms(1)
        by (simp add: replace_py_absent)
      have b: "replace_py ''http://'' [] rest = rest"
        using assms(2) by (simp add: replace_py_absent)
      show ?thesis
        unfolding 3 university_name_of_eq a b
        by (simp add: spec_display_name_def)
    qed
  qed
  show ?thesis
    by (rule conjI [OF two [THEN conjunct1] conjI [OF two [THEN conjunct2] university_name_of_eq]])
qed

theorem display_name_single_scheme_witness:
  "\<not> sublist ''https://'' ''mit.edu/summer'' \<and> \<not> sublist ''http://'' ''mit.edu/summer'' \<and>
   (''https://'' = [] \<or> ''https://'' = ''http://'' \<or> ''https://'' = ''https://'') \<and>
   university_name_of (''https://'' @ ''mit.edu/summer'') =
     takeWhile (\<lambda>c. c \<noteq> CHR ''/'') ''mit.edu/summer'' \<and>
   university_name_of (''https://'' @ ''mit.edu/summer'') =
     spec_display_name (''https://'' @ ''mit.edu/summer'') \<and>
   university_name_of ''https://a.edu?next=https://b.edu/x'' =
     takeWhile (\<lambda>c. c \<noteq> CHR ''/'')
       (replace_py ''http://'' [] (replace_py ''https://'' [] ''https://a.edu?next=https://b.edu/x''))"
proof -
  have a: "\<not> sublist ''https://'' ''mit.edu/summer''"
    by (simp add: sublist_Cons_right)
  have b: "\<not> sublist ''http://'' ''mit.edu/summer''"
    by (simp add: sublist_Cons_right)
  have c: "''https://'' = [] \<or> ''https://'' = ''http://'' \<or> ''https://'' = ''https://''"
    by simp
  show ?thesis
    by (rule conjI [OF a conjI [OF b conjI [OF c
          display_name_single_scheme [OF a b c, where url = "''https://a.edu?next=https://b.edu/x''"]]]])
qed

text \<open>
  C6 as first stated fails on a url that holds a second scheme before the first
  slash of the remainder.
\<close>

theorem display_name_counterexample:
  "university_name_of ''https://a.edu?next=https://b.edu/x'' = ''a.edu?next=b.edu'' \<and>
   spec_display_name ''https://a.edu?next=https://b.edu/x'' = ''a.edu?next=https:'' \<and>
   university_name_of ''https://a.edu?next=https://b.edu/x'' \<noteq>
     spec_display_name ''https://a.edu?next=https://b.edu/x''"
  by (simp add: university_name_of_def spec_display_name_def)

text \<open>
  C7. University entries are matched by the exact url string. After merging under one
  url and then under a different one (both non-empty) there are two distinct entries, one
  for each string: so for \<^verbatim>\<open>https://a.edu/\<close> and \<^verbatim>\<open>https://a.edu\<close>. Merging under the url
  of an existing entry appends no entry and keeps every url; merging under a url no
  entry has appends exactly one entry, with that url; and a merge keeps at most one
  entry for each url string. The second merge loads what the first one returned:
  \<^verbatim>\<open>save_database\<close> writes it and \<^verbatim>\<open>json.load\<close> reads it back.
\<close>

theorem university_identity_by_url:
  "(add_programs_to_database E st ps u1 = Inr d1 \<and>
    add_programs_to_database E2 (Loaded d1) ps2 u2 = Inr d2 \<and>
    u1 \<noteq> u2 \<and> u1 \<noteq> [] \<and> u2 \<noteq> [] \<longrightarrow>
      (\<exists>us2 i j. field d2 ''universities'' = Some (JList us2) \<and>
         i < length us2 \<and> j < length us2 \<and> i \<noteq> j \<and>
         field (us2 ! i) ''url'' = Some (JStr u1) \<and>
         field (us2 ! j) ''url'' = Some (JStr u2))) \<and>
   (add_programs_to_database E st ps ''https://a.edu/'' = Inr d3 \<and>
    add_programs_to_database E2 (Loaded d3) ps ''https://a.edu'' = Inr d4 \<longrightarrow>
      (\<exists>us2 i j. field d4 ''universities'' = Some (JList us2) \<and>
         i < length us2 \<and> j < length us2 \<and> i \<noteq> j \<and>
         field (us2 ! i) ''url'' = Some (JStr ''https://a.edu/'') \<and>
         field (us2 ! j) ''url'' = Some (JStr ''https://a.edu''))) \<and>
   (add_programs_to_database E st ps url = Inr d \<and>
    field (snd (load_database st)) ''universities'' = Some (JList us) \<and>
    (\<exists>u\<in>set us. field u ''url'' = Some (JStr url)) \<longrightarrow>
      (\<exists>us'. field d ''universities'' = Some (JList us') \<and> length us' = length us \<and>
         map (\<lambda>u. field u ''url'') us' = map (\<lambda>u. field u ''url'') us)) \<and>
   (add_programs_to_database E st ps url = Inr d \<and>
    field (snd (load_database st)) ''universities'' = Some (JList us) \<and>
    (\<forall>s. length (entries_with_url s us) \<le> 1) \<longrightarrow>
      (\<exists>us'. field d ''universities'' = Some (JList us') \<and>
         (\<forall>s. length (entries_with_url s us') \<le> 1))) \<and>
   (add_programs_to_database E st ps new_url = Inr d5 \<and>
    field (snd (load_database st)) ''universities'' = Some (JList us) \<and>
    (\<forall>u\<in>set us. field u ''url'' \<noteq> Some (JStr new_url)) \<and>
    (new_url \<noteq> [] \<or> (\<forall>u\<in>set us. field u ''url'' \<noteq> None)) \<longrightarrow>
      field d5 ''universities'' =
        Some (JList (us @ [JObj [(''name'', JStr (university_name_of new_url)),
                                 (''url'', JStr new_url),
                                 (''scraped_at'', JStr (now E 0)),
                                 (''programs_count'', JInt (int (length ps)))]])))"
proof -
  have p1: "add_programs_to_database E st ps u1 = Inr d1 \<and>
    add_programs_to_database E2 (Loaded d1) ps2 u2 = Inr d2 \<and>
    u1 \<noteq> u2 \<and> u1 \<noteq> [] \<and> u2 \<noteq> [] \<longrightarrow>
      (\<exists>us2 i j. field d2 ''universities'' = Some (JList us2) \<and>
         i < length us2 \<and> j < length us2 \<and> i \<noteq> j \<and>
         field (us2 ! i) ''url'' = Some (JStr u1) \<and>
         field (us2 ! j) ''url'' = Some (JStr u2))"
  proof
    assume a: "add_programs_to_database E st ps u1 = Inr d1 \<and>
      add_programs_to_database E2 (Loaded d1) ps2 u2 = Inr d2 \<and>
      u1 \<noteq> u2 \<and> u1 \<noteq> [] \<and> u2 \<noteq> []"
    then have m1: "merge E (snd (load_database st)) ps u1 = Inr d1"
      and m2: "merge E2 d1 ps2 u2 = Inr d2"
      by (simp_all add: add_programs_to_database_def)
    from a have n1: "u1 \<noteq> []" and n2: "u2 \<noteq> []" and ne: "u1 \<noteq> u2" by simp_all
    show "\<exists>us2 i j. field d2 ''universities'' = Some (JList us2) \<and>
         i < length us2 \<and> j < length us2 \<and> i \<noteq> j \<and>
         field (us2 ! i) ''url'' = Some (JStr u1) \<and>
         field (us2 ! j) ''url'' = Some (JStr u2)"
      by (rule two_urls_two_entries [OF m1 m2 n1 n2 ne])
  qed
  have p2: "add_programs_to_database E st ps ''https://a.edu/'' = Inr d3 \<and>
    add_programs_to_database E2 (Loaded d3) ps ''https://a.edu'' = Inr d4 \<longrightarrow>
      (\<exists>us2 i j. field d4 ''universities'' = Some (JList us2) \<and>
         i < length us2 \<and> j < length us2 \<and> i \<noteq> j \<and>
         field (us2 ! i) ''url'' = Some (JStr ''https://a.edu/'') \<and>
         field (us2 ! j) ''url'' = Some (JStr ''https://a.edu''))"
  proof
    assume a: "add_programs_to_database E st ps ''https://a.edu/'' = Inr d3 \<and>
      add_programs_to_database E2 (Loaded d3) ps ''https://a.edu'' = Inr d4"
    then have m1: "merge E (snd (load_database st)) ps ''https://a.edu/'' = Inr d3"
      and m2: "merge E2 d3 ps ''https://a.edu'' = Inr d4"
      by (simp_all add: add_programs_to_database_def)
    show "\<exists>us2 i j. field d4 ''universities'' = Some (JList us2) \<and>
         i < length us2 \<and> j < length us2 \<and> i \<noteq> j \<and>
         field (us2 ! i) ''url'' = Some (JStr ''https://a.edu/'') \<and>
         field (us2 ! j) ''url'' = Some (JStr ''https://a.edu'')"
      by (rule two_urls_two_entries [OF m1 m2]) simp_all
  qed
  have p3: "add_programs_to_database E st ps url = Inr d \<and>
    field (snd (load_database st)) ''universities'' = Some (JList us) \<and>
    (\<exists>u\<in>set us. field u ''url'' = Some (JStr url)) \<longrightarrow>
      (\<exists>us'. field d ''universities'' = Some (JList us') \<and> length us' = length us \<and>
         map (\<lambda>u. field u ''url'') us' = map (\<lambda>u. field u ''url'') us)"
  proof
    assume a: "add_programs_to_database E st ps url = Inr d \<and>
      field (snd (load_database st)) ''universities'' = Some (JList us) \<and>
      (\<exists>u\<in>set us. field u ''url'' = Some (JStr url))"
    then have m: "merge E (snd (load_database st)) ps url = Inr d"
      by (simp add: add_programs_to_database_def)
    from a have u: "field (snd (load_database st)) ''universities'' = Some (JList us)"
      and ent: "\<exists>u\<in>set us. field u ''url'' = Some (JStr url)"
      by blast+
    show "\<exists>us'. field d ''universities'' = Some (JList us') \<and> length us' = length us \<and>
         map (\<lambda>u. field u ''url'') us' = map (\<lambda>u. field u ''url'') us"
      by (rule merge_known_no_append [OF m u ent])
  qed
  have p4: "add_programs_to_database E st ps url = Inr d \<and>
    field (snd (load_database st)) ''universities'' = Some (JList us) \<and>
    (\<forall>s. length (entries_with_url s us) \<le> 1) \<longrightarrow>
      (\<exists>us'. field d ''universities'' = Some (JList us') \<and>
         (\<forall>s. length (entries_with_url s us') \<le> 1))"
  proof
    assume a: "add_programs_to_database E st ps url = Inr d \<and>
      field (snd (load_database st)) ''universities'' = Some (JList us) \<and>
      (\<forall>s. length (entries_with_url s us) \<le> 1)"
    then have m: "merge E (snd (load_database st)) ps url = Inr d"
      by (simp add: add_programs_to_database_def)
    from a have u: "field (snd (load_database st)) ''universities'' = Some (JList us)"
      and one: "\<forall>s. length (entries_with_url s us) \<le> 1"
      by blast+
    show "\<exists>us'. field d ''universities'' = Some (JList us') \<and>
         (\<forall>s. length (entries_with_url s us') \<le> 1)"
      by (rule merge_unique_urls [OF m u one])
  qed
  have p5: "add_programs_to_database E st ps new_url = Inr d5 \<and>
    field (snd (load_database st)) ''universities'' = Some (JList us) \<and>
    (\<forall>u\<in>set us. field u ''url'' \<noteq> Some (JStr new_url)) \<and>
    (new_url \<noteq> [] \<or> (\<forall>u\<in>set us. field u ''url'' \<noteq> None)) \<longrightarrow>
      field d5 ''universities'' =
        Some (JList (us @ [JObj [(''name'', JStr (university_name_of new_url)),
                                 (''url'', JStr new_url),
                                 (''scraped_at'', JStr (now E 0)),
                                 (''programs_count'', JInt (int (length ps)))]]))"
  proof
    assume a: "add_programs_to_database E st ps new_url = Inr d5 \<and>
      field (snd (load_database st)) ''universities'' = Some (JList us) \<and>
      (\<forall>u\<in>set us. field u ''url'' \<noteq> Some (JStr new_url)) \<and>
      (new_url \<noteq> [] \<or> (\<forall>u\<in>set us. field u ''url'' \<noteq> None))"
    then have m: "merge E (snd (load_database st)) ps new_url = Inr d5"
      by (simp add: add_programs_to_database_def)
    from a have u: "field (snd (load_database st)) ''universities'' = Some (JList us)"
      by blast
    from a have "\<not> known_url new_url us"
      unfolding known_url_iff by blast
    from merge_new_url [OF m u this]
    show "field d5 ''universities'' =
        Some (JList (us @ [JObj [(''name'', JStr (university_name_of new_url)),
                                 (''url'', JStr new_url),
                                 (''scraped_at'', JStr (now E 0)),
                                 (''programs_count'', JInt (int (length ps)))]]))"
      by (simp add: university_info_def)
  qed
  show ?thesis
    by (rule conjI [OF p1 conjI [OF p2 conjI [OF p3 conjI [OF p4 p5]]]])
qed

theorem university_identity_by_url_witness:
  "(add_programs_to_database sample_env (Loaded sample_db) [] ''https://a.edu/'' = Inr sample_slash \<and>
    add_programs_to_database sample_env (Loaded sample_slash) [] ''https://a.edu'' =
      Inr sample_slash_rescanned \<and>
    ''https://a.edu/'' \<noteq> ''https://a.edu'' \<and> ''https://a.edu/'' \<noteq> [] \<and> ''https://a.edu'' \<noteq> []) \<and>
   (add_programs_to_database sample_env (Loaded sample_db) [] ''https://a.edu'' = Inr sample_rescanned \<and>
    field (snd (load_database (Loaded sample_db))) ''universities'' =
      Some (JList [JObj [(''name'', JStr ''a.edu''), (''url'', JStr ''https://a.edu''), (''scraped_at'', JStr ''T''), (''programs_count'', JInt 1)]]) \<and>
    (\<exists>u\<in>set [JObj [(''name'', JStr ''a.edu''), (''url'', JStr ''https://a.edu''), (''scraped_at'', JStr ''T''), (''programs_count'', JInt 1)]]. field u ''url'' = Some (JStr ''https://a.edu''))) \<and>
   (\<forall>s. length (entries_with_url s ([JObj [(''name'', JStr ''a.edu''), (''url'', JStr ''https://a.edu''), (''scraped_at'', JStr ''T''), (''programs_count'', JInt 1)]] :: unit json list)) \<le> 1) \<and>
   field (JObj [(''name'', JStr ''a.edu''), (''url'', JStr ''https://a.edu''),
                (''scraped_at'', JStr ''T''), (''programs_count'', JInt 1)] :: unit json) ''url'' \<noteq>
     Some (JStr ''https://a.edu/'') \<and>
   (\<exists>us2 i j. field sample_slash_rescanned ''universities'' = Some (JList us2) \<and>
         i < length us2 \<and> j < length us2 \<and> i \<noteq> j \<and>
         field (us2 ! i) ''url'' = Some (JStr ''https://a.edu/'') \<and>
         field (us2 ! j) ''url'' = Some (JStr ''https://a.edu'')) \<and>
   (\<exists>us2 i j. field sample_slash_rescanned ''universities'' = Some (JList us2) \<and>
         i < length us2 \<and> j < length us2 \<and> i \<noteq> j \<and>
         field (us2 ! i) ''url'' = Some (JStr ''https://a.edu/'') \<and>
         field (us2 ! j) ''url'' = Some (JStr ''https://a.edu'')) \<and>
   (\<exists>us'. field sample_rescanned ''universities'' = Some (JList us') \<and>
         length us' = length ([JObj [(''name'', JStr ''a.edu''), (''url'', JStr ''https://a.edu''), (''scraped_at'', JStr ''T''), (''programs_count'', JInt 1)]] :: unit json list) \<and>
         map (\<lambda>u. field u ''url'') us' = map (\<lambda>u. field u ''url'') [JObj [(''name'', JStr ''a.edu''), (''url'', JStr ''https://a.edu''), (''scraped_at'', JStr ''T''), (''programs_count'', JInt 1)]]) \<and>
   (\<exists>us'. field sample_rescanned ''universities'' = Some (JList us') \<and>
         (\<forall>s. length (entries_with_url s us') \<le> 1)) \<and>
   field sample_slash ''universities'' =
        Some (JList ([JObj [(''name'', JStr ''a.edu''), (''url'', JStr ''https://a.edu''), (''scraped_at'', JStr ''T''), (''programs_count'', JInt 1)]] @ [JObj [(''name'', JStr (university_name_of ''https://a.edu/'')),
                                 (''url'', JStr ''https://a.edu/''),
                                 (''scraped_at'', JStr (now sample_env 0)),
                                 (''programs_count'', JInt (int (length ([] :: unit json list))))]]))"
proof -
  have r1: "add_programs_to_database sample_env (Loaded sample_db) [] ''https://a.edu/'' = Inr sample_slash"
    by code_simp
  have r2: "add_programs_to_database sample_env (Loaded sample_slash) [] ''https://a.edu'' =
      Inr sample_slash_rescanned"
    by code_simp
  have r3: "add_programs_to_database sample_env (Loaded sample_db) [] ''https://a.edu'' = Inr sample_rescanned"
    by code_simp
  have ne: "''https://a.edu/'' \<noteq> ''https://a.edu'' \<and> ''https://a.edu/'' \<noteq> [] \<and> ''https://a.edu'' \<noteq> []"
    by simp
  have u: "field (snd (load_database (Loaded sample_db))) ''universities'' =
      Some (JList [JObj [(''name'', JStr ''a.edu''), (''url'', JStr ''https://a.edu''), (''scraped_at'', JStr ''T''), (''programs_count'', JInt 1)]])"
    by (simp add: sample_db_def)
  have ent: "\<exists>u\<in>set [JObj [(''name'', JStr ''a.edu''), (''url'', JStr ''https://a.edu''), (''scraped_at'', JStr ''T''), (''programs_count'', JInt 1)]]. field u ''url'' = Some (JStr ''https://a.edu'')"
    by simp
  have one: "\<forall>s. length (entries_with_url s ([JObj [(''name'', JStr ''a.edu''), (''url'', JStr ''https://a.edu''), (''scraped_at'', JStr ''T''), (''programs_count'', JInt 1)]] :: unit json list)) \<le> 1"
    by (simp add: entries_with_url_def)
  have other: "field (JObj [(''name'', JStr ''a.edu''), (''url'', JStr ''https://a.edu''),
                (''scraped_at'', JStr ''T''), (''programs_count'', JInt 1)] :: unit json) ''url'' \<noteq>
     Some (JStr ''https://a.edu/'')"
    by simp
  then have fresh: "(\<forall>u\<in>set ([JObj [(''name'', JStr ''a.edu''), (''url'', JStr ''https://a.edu''), (''scraped_at'', JStr ''T''), (''programs_count'', JInt 1)]] :: unit json list). field u ''url'' \<noteq> Some (JStr ''https://a.edu/'')) \<and>
    (''https://a.edu/'' \<noteq> [] \<or> (\<forall>u\<in>set ([JObj [(''name'', JStr ''a.edu''), (''url'', JStr ''https://a.edu''), (''scraped_at'', JStr ''T''), (''programs_count'', JInt 1)]] :: unit json list). field u ''url'' \<noteq> None))"
    by simp
  note all = university_identity_by_url [where E = sample_env and ?E2.0 = sample_env
      and st = "Loaded sample_db" and ps = "[]" and ?ps2.0 = "[]"
      and ?u1.0 = "''https://a.edu/''" and ?u2.0 = "''https://a.edu''"
      and ?d1.0 = sample_slash and ?d2.0 = sample_slash_rescanned
      and ?d3.0 = sample_slash and ?d4.0 = sample_slash_rescanned
      and url = "''https://a.edu''" and d = sample_rescanned and us = "[JObj [(''name'', JStr ''a.edu''), (''url'', JStr ''https://a.edu''), (''scraped_at'', JStr ''T''), (''programs_count'', JInt 1)]]"
      and new_url = "''https://a.edu/''" and ?d5.0 = sample_slash]
  have c1: "\<exists>us2 i j. field sample_slash_rescanned ''universities'' = Some (JList us2) \<and>
         i < length us2 \<and> j < length us2 \<and> i \<noteq> j \<and>
         field (us2 ! i) ''url'' = Some (JStr ''https://a.edu/'') \<and>
         field (us2 ! j) ''url'' = Some (JStr ''https://a.edu'')"
    by (rule all [THEN conjunct1, THEN mp, OF conjI [OF r1 conjI [OF r2 ne]]])
  have c2: "\<exists>us2 i j. field sample_slash_rescanned ''universities'' = Some (JList us2) \<and>
         i < length us2 \<and> j < length us2 \<and> i \<noteq> j \<and>
         field (us2 ! i) ''url'' = Some (JStr ''https://a.edu/'') \<and>
         field (us2 ! j) ''url'' = Some (JStr ''https://a.edu'')"
    by (rule all [THEN conjunct2, THEN conjunct1, THEN mp, OF conjI [OF r1 r2]])
  have c3: "\<exists>us'. field sample_rescanned ''universities'' = Some (JList us') \<and>
         length us' = length ([JObj [(''name'', JStr ''a.edu''), (''url'', JStr ''https://a.edu''), (''scraped_at'', JStr ''T''), (''programs_count'', JInt 1)]] :: unit json list) \<and>
         map (\<lambda>u. field u ''url'') us' = map (\<lambda>u. field u ''url'') [JObj [(''name'', JStr ''a.edu''), (''url'', JStr ''https://a.edu''), (''scraped_at'', JStr ''T''), (''programs_count'', JInt 1)]]"
    by (rule all [THEN conjunct2, THEN conjunct2, THEN conjunct1, THEN mp,
          OF conjI [OF r3 conjI [OF u ent]]])
  have c4: "\<exists>us'. field sample_rescanned ''universities'' = Some (JList us') \<and>
         (\<forall>s. length (entries_with_url s us') \<le> 1)"
    by (rule all [THEN conjunct2, THEN conjunct2, THEN conjunct2, THEN conjunct1, THEN mp,
          OF conjI [OF r3 conjI [OF u one]]])
  have c5: "field sample_slash ''universities'' =
        Some (JList ([JObj [(''name'', JStr ''a.edu''), (''url'', JStr ''https://a.edu''), (''scraped_at'', JStr ''T''), (''programs_count'', JInt 1)]] @ [JObj [(''name'', JStr (university_name_of ''https://a.edu/'')),
                                 (''url'', JStr ''https://a.edu/''),
                                 (''scraped_at'', JStr (now sample_env 0)),
                                 (''programs_count'', JInt (int (length ([] :: unit json list))))]]))"
    by (rule all [THEN conjunct2, THEN conjunct2, THEN conjunct2, THEN conjunct2, THEN mp,
          OF conjI [OF r1 conjI [OF u fresh]]])
  show ?thesis
    by (rule conjI [OF conjI [OF r1 conjI [OF r2 ne]] conjI [OF conjI [OF r3 conjI [OF u ent]]
          conjI [OF one conjI [OF other conjI [OF c1 conjI [OF c2 conjI [OF c3
          conjI [OF c4 c5]]]]]]]])
qed

text \<open>
  C8 (as amended). The response handling first strips the surrounding whitespace. Then a
  text that opens with the marker \<^verbatim>\<open>```json\<close> and closes with \<^verbatim>\<open>```\<close> loses exactly these
  two markers; a text that opens with \<^verbatim>\<open>```\<close> not followed by \<^verbatim>\<open>json\<close> and closes with
  \<^verbatim>\<open>```\<close> loses exactly these two markers; and a text that does not open with \<^verbatim>\<open>```\<close> is
  left as it is.
\<close>

theorem clean_response_fenced:
  "(\<exists>a b. content = a @ strip content @ b \<and>
           (\<forall>c\<in>set a. is_space c) \<and> (\<forall>c\<in>set b. is_space c)) \<and>
   (strip content \<noteq> [] \<longrightarrow>
      \<not> is_space (hd (strip content)) \<and> \<not> is_space (last (strip content))) \<and>
   (strip content = ''```json'' @ body @ ''```'' \<longrightarrow> clean_response content = body) \<and>
   (strip content = ''```'' @ body @ ''```'' \<and> \<not> prefix ''json'' body \<longrightarrow>
      clean_response content = body) \<and>
   (\<not> prefix ''```'' (strip content) \<longrightarrow> clean_response content = strip content)"
proof -
  have p1: "\<exists>a b. content = a @ strip content @ b \<and>
           (\<forall>c\<in>set a. is_space c) \<and> (\<forall>c\<in>set b. is_space c)"
    by (rule strip_decompose)
  have p2: "strip content \<noteq> [] \<longrightarrow>
      \<not> is_space (hd (strip content)) \<and> \<not> is_space (last (strip content))"
    using strip_ends by blast
  have p3: "strip content = ''```json'' @ body @ ''```'' \<longrightarrow> clean_response content = body"
  proof
    assume a: "strip content = ''```json'' @ body @ ''```''"
    have "length ''```json'' = 7" and "length ''```'' = 3" by simp_all
    with slice_between_wrapped [of "''```json''" "''```''" body]
    have "slice_between 7 3 (''```json'' @ body @ ''```'') = body" by (simp only:)
    with a show "clean_response content = body"
      by (simp add: clean_response_def)
  qed
  have p4: "strip content = ''```'' @ body @ ''```'' \<and> \<not> prefix ''json'' body \<longrightarrow>
      clean_response content = body"
  proof
    assume a: "strip content = ''```'' @ body @ ''```'' \<and> \<not> prefix ''json'' body"
    have "length ''```'' = 3" by simp
    with slice_between_wrapped [of "''```''" "''```''" body]
    have s: "slice_between 3 3 (''```'' @ body @ ''```'') = body" by (simp only:)
    have "\<not> prefix ''json'' (body @ ''```'')"
    proof
      assume "prefix ''json'' (body @ ''```'')"
      with a obtain us where us: "''json'' = body @ us" and pre: "prefix us ''```''"
        by (auto simp: prefix_append)
      from us a have "us \<noteq> []" by auto
      with pre obtain vs where "us = CHR 0x60 # vs"
        by (cases us) auto
      with us have "CHR 0x60 \<in> set ''json''"
        by (metis in_set_conv_decomp)
      then show False by simp
    qed
    then have "\<not> prefix ''```json'' (''```'' @ body @ ''```'')"
      by simp
    with a s show "clean_response content = body"
      by (simp add: clean_response_def)
  qed
  have p5: "\<not> prefix ''```'' (strip content) \<longrightarrow> clean_response content = strip content"
  proof
    assume a: "\<not> prefix ''```'' (strip content)"
    then have "\<not> prefix ''```json'' (strip content)"
      by (auto simp: prefix_def)
    with a show "clean_response content = strip content"
      by (simp add: clean_response_def)
  qed
  show ?thesis
    by (rule conjI [OF p1 conjI [OF p2 conjI [OF p3 conjI [OF p4 p5]]]])
qed

theorem clean_response_fenced_witness:
  "strip '' ```json[1]``` '' = ''```json'' @ ''[1]'' @ ''```'' \<and>
   (strip ''```[1]```'' = ''```'' @ ''[1]'' @ ''```'' \<and> \<not> prefix ''json'' ''[1]'') \<and>
   \<not> prefix ''```'' (strip '' [1] '') \<and>
   strip '' [1] '' \<noteq> [] \<and>
   clean_response '' ```json[1]``` '' = ''[1]'' \<and>
   clean_response ''```[1]```'' = ''[1]'' \<and>
   clean_response '' [1] '' = strip '' [1] '' \<and>
   (\<not> is_space (hd (strip '' [1] '')) \<and> \<not> is_space (last (strip '' [1] '')))"
proof -
  have s1: "strip '' ```json[1]``` '' = ''```json'' @ ''[1]'' @ ''```''" by code_simp
  have s2: "strip ''```[1]```'' = ''```'' @ ''[1]'' @ ''```'' \<and> \<not> prefix ''json'' ''[1]''"
    by code_simp
  have s3: "\<not> prefix ''```'' (strip '' [1] '')" by code_simp
  have s4: "strip '' [1] '' \<noteq> []" by code_simp
  note c1 = clean_response_fenced [of "'' ```json[1]``` ''" "''[1]''",
      THEN conjunct2, THEN conjunct2, THEN conjunct1, THEN mp, OF s1]
  note c2 = clean_response_fenced [of "''```[1]```''" "''[1]''",
      THEN conjunct2, THEN conjunct2, THEN conjunct2, THEN conjunct1, THEN mp, OF s2]
  note c3 = clean_response_fenced [of "'' [1] ''" "[]",
      THEN conjunct2, THEN conjunct2, THEN conjunct2, THEN conjunct2, THEN mp, OF s3]
  note c4 = clean_response_fenced [of "'' [1] ''" "[]",
      THEN conjunct2, THEN conjunct1, THEN mp, OF s4]
  show ?thesis
    by (rule conjI [OF s1 conjI [OF s2 conjI [OF s3 conjI [OF s4 conjI [OF c1 conjI [OF c2
          conjI [OF c3 c4]]]]]]])
qed

text \<open>
  C8 as first stated fails on a text that opens with a fence and does not close
  with one: it is not wrapped in a fence, and still loses its first three and its last
  three characters. Nor are the language tags treated alike: of two wrapped texts, the
  tag \<^verbatim>\<open>json\<close> goes with the marker and the tag \<^verbatim>\<open>yaml\<close> stays in the text.
\<close>

theorem clean_response_counterexample:
  "strip ''```[1, 2]'' = ''```[1, 2]'' \<and>
   \<not> spec_wrapped_in_fence (strip ''```[1, 2]'') \<and>
   clean_response ''```[1, 2]'' = ''[1,'' \<and>
   clean_response ''```[1, 2]'' \<noteq> strip ''```[1, 2]'' \<and>
   spec_wrapped_in_fence (strip ''```json[1]```'') \<and>
   spec_wrapped_in_fence (strip ''```yaml[1]```'') \<and>
   clean_response ''```json[1]```'' = ''[1]'' \<and>
   clean_response ''```yaml[1]```'' = ''yaml[1]''"
  by code_simp

text \<open>
  C9. Loading when the file does not exist, or when opening or parsing it raises, gives
  the canonical empty collection; \<^verbatim>\<open>load_database\<close> has no failing result.
\<close>

theorem load_database_missing_or_corrupt:
  "snd (load_database NoFile) =
     JObj [(''programs'', JList []), (''universities'', JList []),
           (''last_updated'', JNull), (''total_programs'', JInt 0)] \<and>
   snd (load_database LoadRaises) =
     JObj [(''programs'', JList []), (''universities'', JList []),
           (''last_updated'', JNull), (''total_programs'', JInt 0)]"
  by (simp add: empty_database_def)

text \<open>
  C10. The merge does not write to its input batch: every object that exists before the
  loop, the batch list and each record in it, holds the same value after the loop,
  whether the loop returns or raises; on the records' values the loop computes what the
  value-level \<open>add_records\<close> computes; and when it returns, the store has grown by
  exactly the new records, the copies that carry the provenance fields.
\<close>

theorem merge_leaves_batch_untouched:
  "take (length h) (fst (add_records_heap E name url b 0 t db h)) = h \<and>
   (cell_at h b = Some (Refs as) \<and> (\<forall>a\<in>set as. \<exists>v. cell_at h a = Some (Obj v)) \<longrightarrow>
      snd (add_records_heap E name url b 0 t db h) =
        add_records E name url (map (obj_at h) as) t db) \<and>
   (add_records_heap E name url b 0 t db h = (h', Inr res) \<and>
    map_of db ''programs'' = Some (JList ex) \<longrightarrow>
      (\<exists>news. h' = h @ map Obj news \<and>
         map_of (snd res) ''programs'' = Some (JList (ex @ news))))"
proof -
  have p1: "take (length h) (fst (add_records_heap E name url b 0 t db h)) = h"
    using add_records_heap_frame [of h E name url b 0 t db] by simp
  have p2: "cell_at h b = Some (Refs as) \<and> (\<forall>a\<in>set as. \<exists>v. cell_at h a = Some (Obj v)) \<longrightarrow>
      snd (add_records_heap E name url b 0 t db h) =
        add_records E name url (map (obj_at h) as) t db"
    using add_records_heap_refines [of h b as E name url 0 t db] by simp
  have p3: "add_records_heap E name url b 0 t db h = (h', Inr res) \<and>
    map_of db ''programs'' = Some (JList ex) \<longrightarrow>
      (\<exists>news. h' = h @ map Obj news \<and>
         map_of (snd res) ''programs'' = Some (JList (ex @ news)))"
    using add_records_heap_success [of E name url b 0 t db h h' res ex] by blast
  show ?thesis
    by (rule conjI [OF p1 conjI [OF p2 p3]])
qed

theorem merge_leaves_batch_untouched_witness:
  "(cell_at sample_heap 1 = Some (Refs [0]) \<and>
    (\<exists>v. cell_at sample_heap 0 = Some (Obj v))) \<and>
   (add_records_heap sample_env ''mit.edu'' ''https://mit.edu/summer'' 1 0 1
      [(''programs'', JList [])] sample_heap =
      (sample_heap_after,
       Inr (2, [(''programs'',
                 JList [JObj [(''name'', JStr ''Code Camp''), (''university'', JStr ''mit.edu''),
                              (''source_url'', JStr ''https://mit.edu/summer''),
                              (''added_at'', JStr ''T1''),
                              (''id'', JStr ''mit.edu_Code Camp_0'')]])])) \<and>
    map_of [(''programs'', JList [] :: unit json)] ''programs'' = Some (JList [])) \<and>
   take (length sample_heap) sample_heap_after = sample_heap \<and>
   snd (add_records_heap sample_env ''mit.edu'' ''https://mit.edu/summer'' 1 0 1
      [(''programs'', JList [])] sample_heap) =
     add_records sample_env ''mit.edu'' ''https://mit.edu/summer'' (map (obj_at sample_heap) [0]) 1
       [(''programs'', JList [])] \<and>
   (\<exists>news. sample_heap_after = sample_heap @ map Obj news \<and>
      map_of (snd (2 :: nat, [(''programs'',
                 JList [JObj [(''name'', JStr ''Code Camp''), (''university'', JStr ''mit.edu''),
                              (''source_url'', JStr ''https://mit.edu/summer''),
                              (''added_at'', JStr ''T1''),
                              (''id'', JStr ''mit.edu_Code Camp_0'') :: string \<times> unit json]])]))
        ''programs'' = Some (JList ([] @ news)))"
proof -
  let ?res = "(2 :: nat, [(''programs'',
                 JList [JObj [(''name'', JStr ''Code Camp''), (''university'', JStr ''mit.edu''),
                              (''source_url'', JStr ''https://mit.edu/summer''),
                              (''added_at'', JStr ''T1''),
                              (''id'', JStr ''mit.edu_Code Camp_0'') :: string \<times> unit json]])])"
  have h0: "cell_at sample_heap 1 = Some (Refs [0]) \<and>
    (\<exists>v. cell_at sample_heap 0 = Some (Obj v))"
    by (simp add: cell_at_def sample_heap_def)
  then have h1: "cell_at sample_heap 1 = Some (Refs [0]) \<and>
    (\<forall>a\<in>set [0]. \<exists>v. cell_at sample_heap a = Some (Obj v))"
    by simp
  have run: "add_records_heap sample_env ''mit.edu'' ''https://mit.edu/summer'' 1 0 1
      [(''programs'', JList [])] sample_heap = (sample_heap_after, Inr ?res)"
    by code_simp
  have look: "map_of [(''programs'', JList [] :: unit json)] ''programs'' = Some (JList [])"
    by simp
  note all = merge_leaves_batch_untouched [of sample_heap sample_env "''mit.edu''"
      "''https://mit.edu/summer''" 1 1 "[(''programs'', JList [])]" "[0]" sample_heap_after
      ?res "[]"]
  from all [THEN conjunct1] run
  have c1: "take (length sample_heap) sample_heap_after = sample_heap" by simp
  note c2 = all [THEN conjunct2, THEN conjunct1, THEN mp, OF h1]
  note c3 = all [THEN conjunct2, THEN conjunct2, THEN mp, OF conjI [OF run look]]
  show ?thesis
    by (rule conjI [OF h0 conjI [OF conjI [OF run look] conjI [OF c1 conjI [OF c2 c3]]]])
qed

end
